theory Spec2Isabelle
  imports Complex_Main
begin

section \<open>Deliveroo reconciliation: the data model\<close>

text \<open>
  The development follows \<^verbatim>\<open>implementation/deliveroo/DR02_data_reconciliation.py\<close>.
  A pandas table is a list of rows, a row is a record of the columns the matching code
  reads. Python floats are modelled as exact reals, so all results are about the
  arithmetic the code intends; timestamps are seconds, dates are day numbers, and
  \<open>None\<close> stands for pandas' \<^verbatim>\<open>NaT\<close>/\<^verbatim>\<open>NaN\<close> (a value \<^verbatim>\<open>pd.isna\<close> accepts).
  Logging and the \<^verbatim>\<open>stats\<close> counters, which only feed log lines, are left out.
\<close>

datatype error = KeyError

text \<open>One row of the Deliveroo Combined table, as \<^verbatim>\<open>load_dr_combined\<close> hands it on.\<close>

record dr_row =
  order_number :: string
  accounting_category :: string
  order_last4 :: string
  mfc_name :: string
  delivery_date :: "int option"
  dr_delivery_ts :: "int option"
  order_value_gross :: "real option"
  marketing_offer_discount :: "real option"
  adjustment_gross :: "real option"

text \<open>
  One row of the warehouse table, as \<^verbatim>\<open>load_dwh_deliveroo\<close> hands it on. The fields carry
  the \<^verbatim>\<open>dwh_\<close> prefix that the propagation step gives these columns in its output. Every row
  is taken to have a \<^verbatim>\<open>gp_order_id\<close>.
\<close>

record dwh_row =
  dwh_gp_order_id :: string
  dwh_mp_order_id :: string
  dwh_location_name :: string
  dwh_created_at_day :: "int option"
  dwh_order_completed :: real
  dwh_post_promo_sales_inc_vat :: real
  dwh_created_at_ts :: "int option"
  dwh_delivered_at_ts :: "int option"

text \<open>One row of the table \<^verbatim>\<open>aggregate_order_values\<close> returns (prefix \<open>a_\<close> on the columns
  copied from the order row).\<close>

record agg_row =
  a_order_number :: string
  a_order_last4 :: string
  a_mfc_name :: string
  a_delivery_date :: "int option"
  gross_order_value :: real
  a_order_value_gross :: real
  a_marketing_offer_discount :: real
  unavailable_items_adjustment :: real
  fees_row_count :: nat
  order_row_count :: nat
  net_sales_value :: real
  has_refund :: bool

text \<open>The candidate dictionaries stored in \<^verbatim>\<open>dwh_lookup\<close>.\<close>

record cand =
  idx :: nat
  gp_order_id :: string
  dwh_value :: real
  created_at_ts :: "int option"
  delivered_at_ts :: "int option"

text \<open>The dictionaries stored in \<^verbatim>\<open>match_results\<close> (prefix \<open>mi_\<close>); \<open>dwh_idx\<close> and
  \<open>dwh_data\<close> are absent from the dictionary of an unmatched order.\<close>

record match_info =
  matched :: bool
  dwh_idx :: "nat option"
  dwh_data :: "dwh_row option"
  mi_order_category :: string
  mi_match_status :: string
  mi_match_confidence :: string
  cross_midnight :: bool
  mi_net_sales_value :: real
  mi_gross_order_value :: real
  mi_unavailable_items_adjustment :: real

text \<open>
  One row of the table \<^verbatim>\<open>match_deliveroo_orders\<close> returns: the original row and the columns
  added to it. A column that the table does not have, or that is \<^verbatim>\<open>NaN\<close> in this row, is
  \<open>None\<close>.
\<close>

record out_row =
  row :: dr_row
  out_net_sales_value :: "real option"
  out_gross_order_value :: "real option"
  out_unavailable_items_adjustment :: "real option"
  out_dwh :: "dwh_row option"
  order_category :: string
  match_status :: string
  match_confidence :: "string option"

text \<open>One row of the table \<^verbatim>\<open>calculate_variances\<close> returns.\<close>

record var_row =
  base :: out_row
  amount_variance :: real
  matched_amount :: string
  variance_explanation :: string

record match_state =
  match_results :: "string \<rightharpoonup> match_info"
  used_dwh_ids :: "string set"

type_synonym lookup_key = "string \<times> string \<times> int option"
type_synonym dwh_lookup = "lookup_key \<rightharpoonup> cand list"

section \<open>Helpers\<close>

text \<open>
  \<^verbatim>\<open>str.strip()\<close>. A character is a code point below 256, and the white space among these,
  by \<^verbatim>\<open>str.isspace\<close>, is 9 to 13, 28 to 32, U+0085 and U+00A0. Text with code points from
  256 on is outside the model.
\<close>

definition is_space :: "char \<Rightarrow> bool" where
  "is_space c = (of_char c \<in> {9, 10, 11, 12, 13, 28, 29, 30, 31, 32, 133, 160 :: nat})"

definition strip :: "string \<Rightarrow> string" where
  "strip s = rev (dropWhile is_space (rev (dropWhile is_space s)))"

text \<open>\<^verbatim>\<open>pd.to_numeric(..., errors="coerce").fillna(0)\<close> on one cell.\<close>

definition fillna0 :: "real option \<Rightarrow> real" where
  "fillna0 v = (case v of None \<Rightarrow> 0 | Some x \<Rightarrow> x)"

text \<open>\<^verbatim>\<open>Series.round(2)\<close>: numpy rounds the value scaled by 100 to the nearest integer, a tie
  to the even one.\<close>

definition round_half_even :: "real \<Rightarrow> int" where
  "round_half_even x =
     (let f = \<lfloor>x\<rfloor>; d = x - of_int f
      in if d < 1 / 2 then f else if 1 / 2 < d then f + 1 else if even f then f else f + 1)"

definition round2 :: "real \<Rightarrow> real" where
  "round2 x = of_int (round_half_even (x * 100)) / 100"

section \<open>Order aggregation\<close>

definition is_order :: "dr_row \<Rightarrow> bool" where
  "is_order r = (accounting_category r = ''Order Value & Commission'')"

definition is_fee :: "dr_row \<Rightarrow> bool" where
  "is_fee r = (accounting_category r = ''Additional Fees'')"

text \<open>
  \<^verbatim>\<open>aggregate_order_values\<close>. The group-by of the fee rows and the two left merges are
  written as what they give for one order row: the sum and the count of the fee rows with
  its \<^verbatim>\<open>order_number\<close> (0 where there is none, by \<^verbatim>\<open>fillna(0)\<close>) and the number of
  rows of any category with that number. A left merge on a right table with one row per
  key keeps the left rows and their order.
\<close>

definition aggregate_order_values :: "dr_row list \<Rightarrow> agg_row list" where
  "aggregate_order_values dr_df =
     (let orders_df = filter is_order dr_df;
          fees_df = filter is_fee dr_df
      in if orders_df = [] then []
         else map (\<lambda>r.
           let ovg = fillna0 (order_value_gross r);
               disc = fillna0 (marketing_offer_discount r);
               grp = filter (\<lambda>f. order_number f = order_number r) fees_df;
               adj = sum_list (map (\<lambda>f. fillna0 (adjustment_gross f)) grp)
           in \<lparr> a_order_number = order_number r,
                a_order_last4 = order_last4 r,
                a_mfc_name = mfc_name r,
                a_delivery_date = delivery_date r,
                gross_order_value = ovg + disc,
                a_order_value_gross = ovg,
                a_marketing_offer_discount = disc,
                unavailable_items_adjustment = adj,
                fees_row_count = length grp,
                order_row_count = length (filter (\<lambda>f. order_number f = order_number r) dr_df),
                net_sales_value = (ovg + disc) + adj,
                has_refund = (adj \<noteq> 0) \<rparr>) orders_df)"

section \<open>Collision resolution\<close>

text \<open>The loop of \<^verbatim>\<open>_resolve_collision_by_timestamp\<close>: the candidates appended to
  \<^verbatim>\<open>matching_candidates\<close>, in order. The buffer is in hours, a timestamp in seconds.\<close>

fun matching_candidates :: "int \<Rightarrow> nat \<Rightarrow> cand list \<Rightarrow> cand list" where
  "matching_candidates ts buffer_hours [] = []"
| "matching_candidates ts buffer_hours (c # cs) =
     (case created_at_ts c of
        None \<Rightarrow> matching_candidates ts buffer_hours cs
      | Some created_ts \<Rightarrow>
          (case delivered_at_ts c of
             None \<Rightarrow> matching_candidates ts buffer_hours cs
           | Some delivered_ts \<Rightarrow>
               (let window_end = delivered_ts + 3600 * int buffer_hours
                in if created_ts \<le> ts \<and> ts \<le> window_end
                   then c # matching_candidates ts buffer_hours cs
                   else matching_candidates ts buffer_hours cs)))"

definition resolve_collision_by_timestamp ::
  "int option \<Rightarrow> cand list \<Rightarrow> nat \<Rightarrow> cand option \<times> string" where
  "resolve_collision_by_timestamp dr_ts candidates buffer_hours =
     (case dr_ts of
        None \<Rightarrow> (None, ''NO_DR_TIMESTAMP'')
      | Some ts \<Rightarrow>
          (case matching_candidates ts buffer_hours candidates of
             [] \<Rightarrow> (None, ''NO_TIMESTAMP_MATCH'')
           | [c] \<Rightarrow> (Some c, ''MATCHED_BY_TIMESTAMP'')
           | _ \<Rightarrow> (None, ''MULTIPLE_TIMESTAMP_MATCHES'')))"

text \<open>
  The loop of \<^verbatim>\<open>_resolve_collision_by_value\<close>. Its state is \<^verbatim>\<open>(best_match, best_diff)\<close>,
  starting at \<^verbatim>\<open>(None, inf)\<close>, which is \<open>None\<close> here: every difference is below
  infinity.
\<close>

fun best_match_loop :: "real \<Rightarrow> cand list \<Rightarrow> (cand \<times> real) option \<Rightarrow> (cand \<times> real) option" where
  "best_match_loop dr_value [] best = best"
| "best_match_loop dr_value (c # cs) best =
     (let diff = \<bar>dwh_value c - dr_value\<bar>
      in best_match_loop dr_value cs
           (if (case best of None \<Rightarrow> True | Some (_, best_diff) \<Rightarrow> diff < best_diff)
            then Some (c, diff) else best))"

definition resolve_collision_by_value ::
  "real option \<Rightarrow> cand list \<Rightarrow> real \<Rightarrow> cand option \<times> string" where
  "resolve_collision_by_value dr_value candidates tolerance =
     (case dr_value of
        None \<Rightarrow> (None, ''NO_DR_VALUE'')
      | Some v \<Rightarrow>
          (case best_match_loop v candidates None of
             None \<Rightarrow> (None, ''NO_VALUE_MATCH'')
           | Some (best_match, best_diff) \<Rightarrow>
               if best_diff < tolerance
                  \<or> (0 < dwh_value best_match \<and> best_diff / dwh_value best_match < 0.01)
               then (Some best_match, ''MATCHED_BY_VALUE'')
               else (None, ''NO_VALUE_MATCH'')))"

section \<open>The warehouse lookup\<close>

text \<open>\<^verbatim>\<open>dwh_completed\<close>: the completed rows, each with its index label in \<^verbatim>\<open>dwh_df\<close>.\<close>

definition dwh_completed_of :: "dwh_row list \<Rightarrow> (nat \<times> dwh_row) list" where
  "dwh_completed_of dwh_df =
     filter (\<lambda>(i, r). dwh_order_completed r = 1) (zip [0 ..< length dwh_df] dwh_df)"

definition make_cand :: "nat \<Rightarrow> dwh_row \<Rightarrow> cand" where
  "make_cand i r =
     \<lparr> idx = i,
       gp_order_id = dwh_gp_order_id r,
       dwh_value = dwh_post_promo_sales_inc_vat r,
       created_at_ts = dwh_created_at_ts r,
       delivered_at_ts = dwh_delivered_at_ts r \<rparr>"

definition lookup_get :: "dwh_lookup \<Rightarrow> lookup_key \<Rightarrow> cand list" where
  "lookup_get dwh_lookup key = (case dwh_lookup key of None \<Rightarrow> [] | Some cs \<Rightarrow> cs)"

text \<open>Step 3 of \<^verbatim>\<open>match_deliveroo_orders\<close>: the loop that fills \<^verbatim>\<open>dwh_lookup\<close>.\<close>

fun build_lookup :: "(nat \<times> dwh_row) list \<Rightarrow> dwh_lookup \<Rightarrow> dwh_lookup" where
  "build_lookup [] dwh_lookup = dwh_lookup"
| "build_lookup ((i, r) # rest) dwh_lookup =
     (let mp_id = strip (dwh_mp_order_id r);
          loc = strip (dwh_location_name r)
      in if mp_id \<noteq> [] \<and> loc \<noteq> [] \<and> mp_id \<noteq> ''nan''
         then (let key = (mp_id, loc, dwh_created_at_day r)
               in build_lookup rest
                    (dwh_lookup(key \<mapsto> lookup_get dwh_lookup key @ [make_cand i r])))
         else build_lookup rest dwh_lookup)"

text \<open>\<^verbatim>\<open>dwh_completed.loc[dwh_idx]\<close>, which raises \<^verbatim>\<open>KeyError\<close> on an unknown label.\<close>

definition loc :: "(nat \<times> dwh_row) list \<Rightarrow> nat \<Rightarrow> error + dwh_row" where
  "loc dwh_completed i = (case map_of dwh_completed i of None \<Rightarrow> Inl KeyError | Some r \<Rightarrow> Inr r)"

section \<open>The match resolver\<close>

text \<open>
  \<^verbatim>\<open>agg_df.sort_values("delivery_date")\<close>: the rows in ascending order of the
  \<^verbatim>\<open>delivery_date\<close> column alone, rows without a date last. Rows of one date are kept in
  their order in \<^verbatim>\<open>agg_df\<close>: that is what the default sort of pandas (numpy's quicksort,
  an insertion sort on short arrays) does for a table of up to 16 rows; for a longer table
  it may order the rows of one date differently, which this function does not follow. The
  properties of the loop below are proved for every list of aggregated rows, whatever its
  order.
\<close>

definition date_le :: "int option \<Rightarrow> int option \<Rightarrow> bool" where
  "date_le a b = (case b of None \<Rightarrow> True | Some y \<Rightarrow> (case a of None \<Rightarrow> False | Some x \<Rightarrow> x \<le> y))"

fun insort_date :: "agg_row \<Rightarrow> agg_row list \<Rightarrow> agg_row list" where
  "insort_date a [] = [a]"
| "insort_date a (b # bs) =
     (if date_le (a_delivery_date a) (a_delivery_date b) then a # b # bs
      else b # insort_date a bs)"

definition sort_values_delivery_date :: "agg_row list \<Rightarrow> agg_row list" where
  "sort_values_delivery_date agg_df = foldr insort_date agg_df []"

text \<open>\<^verbatim>\<open>orders_df.set_index("order_number")["dr_delivery_ts"].to_dict()\<close>: for a number that
  several order rows carry, the last row's timestamp.\<close>

fun order_timestamps_of :: "dr_row list \<Rightarrow> (string \<rightharpoonup> int option) \<Rightarrow> (string \<rightharpoonup> int option)" where
  "order_timestamps_of [] m = m"
| "order_timestamps_of (r # rs) m = order_timestamps_of rs (m(order_number r \<mapsto> dr_delivery_ts r))"

definition confidence_map :: "string \<Rightarrow> string" where
  "confidence_map status =
     (if status = ''MATCHED'' then ''High''
      else if status = ''MATCHED_CROSS_MIDNIGHT'' then ''High (Cross-Midnight)''
      else if status = ''MATCHED_BY_TIMESTAMP'' then ''Medium (Timestamp)''
      else if status = ''MATCHED_BY_VALUE'' then ''Low (Value)''
      else if status = ''NO_DWH_RECORD'' then ''N/A''
      else if status = ''COLLISION'' then ''Ambiguous''
      else ''Unknown'')"

definition available_for :: "dwh_lookup \<Rightarrow> string set \<Rightarrow> lookup_key \<Rightarrow> cand list" where
  "available_for dwh_lookup used key =
     filter (\<lambda>c. gp_order_id c \<notin> used) (lookup_get dwh_lookup key)"

text \<open>
  The first half of the loop body of step 4: the candidates still available for an order
  and whether they come from the previous day. A \<^verbatim>\<open>delivery_date\<close> is a date or
  \<^verbatim>\<open>NaT\<close>, never Python's \<^verbatim>\<open>None\<close>, so the guard \<^verbatim>\<open>dr_date is not None\<close> holds; \<^verbatim>\<open>NaT\<close>
  minus a day is \<^verbatim>\<open>NaT\<close>.
\<close>

definition find_available :: "dwh_lookup \<Rightarrow> string set \<Rightarrow> agg_row \<Rightarrow> cand list \<times> bool" where
  "find_available dwh_lookup used agg =
     (let dr_last4 = strip (a_order_last4 agg);
          dr_mfc = strip (a_mfc_name agg);
          dr_date = a_delivery_date agg;
          available = available_for dwh_lookup used (dr_last4, dr_mfc, dr_date)
      in if available = []
         then (let prev_date = map_option (\<lambda>d. d - 1) dr_date;
                   available = available_for dwh_lookup used (dr_last4, dr_mfc, prev_date)
               in (available, available \<noteq> []))
         else (available, False))"

text \<open>The second half: the matching logic with priority, giving
  \<^verbatim>\<open>(matched_candidate, match_status)\<close>.\<close>

definition choose_candidate ::
  "cand list \<Rightarrow> bool \<Rightarrow> int option \<Rightarrow> real \<Rightarrow> cand option \<times> string" where
  "choose_candidate available cross dr_ts net_value =
     (case available of
        [] \<Rightarrow> (None, ''NO_DWH_RECORD'')
      | [c] \<Rightarrow> (Some c, if cross then ''MATCHED_CROSS_MIDNIGHT'' else ''MATCHED'')
      | _ \<Rightarrow>
          (case resolve_collision_by_timestamp dr_ts available 1 of
             (Some c, ts_result) \<Rightarrow> (Some c, ''MATCHED_BY_TIMESTAMP'')
           | (None, ts_result) \<Rightarrow>
               (case resolve_collision_by_value (Some net_value) available 0.10 of
                  (Some c, val_result) \<Rightarrow> (Some c, ''MATCHED_BY_VALUE'')
                | (None, val_result) \<Rightarrow> (None, ''COLLISION''))))"

definition resolve_order ::
  "dwh_lookup \<Rightarrow> string set \<Rightarrow> (string \<rightharpoonup> int option) \<Rightarrow> agg_row \<Rightarrow> (cand option \<times> string) \<times> bool" where
  "resolve_order dwh_lookup used order_timestamps agg =
     (let (available, cross) = find_available dwh_lookup used agg;
          dr_ts = (case order_timestamps (a_order_number agg) of None \<Rightarrow> None | Some t \<Rightarrow> t)
      in (choose_candidate available cross dr_ts (net_sales_value agg), cross))"

text \<open>The loop body of step 4 as a whole: resolve the order, store its result, mark the
  matched warehouse record as used.\<close>

definition match_step ::
  "dwh_lookup \<Rightarrow> (nat \<times> dwh_row) list \<Rightarrow> (string \<rightharpoonup> int option) \<Rightarrow> agg_row \<Rightarrow> match_state
     \<Rightarrow> error + match_state" where
  "match_step dwh_lookup dwh_completed order_timestamps agg st =
     (case resolve_order dwh_lookup (used_dwh_ids st) order_timestamps agg of
        ((matched_candidate, status), cross) \<Rightarrow>
          (case matched_candidate of
             Some c \<Rightarrow>
               (case loc dwh_completed (idx c) of
                  Inl e \<Rightarrow> Inl e
                | Inr dwh_r \<Rightarrow>
                    Inr \<lparr> match_results = (match_results st)(a_order_number agg \<mapsto>
                            \<lparr> matched = True,
                              dwh_idx = Some (idx c),
                              dwh_data = Some dwh_r,
                              mi_order_category =
                                (if has_refund agg then ''Matched (Grouped)'' else ''Matched''),
                              mi_match_status = status,
                              mi_match_confidence = confidence_map status,
                              cross_midnight = cross,
                              mi_net_sales_value = net_sales_value agg,
                              mi_gross_order_value = gross_order_value agg,
                              mi_unavailable_items_adjustment = unavailable_items_adjustment agg \<rparr>),
                          used_dwh_ids = insert (gp_order_id c) (used_dwh_ids st) \<rparr>)
           | None \<Rightarrow>
               Inr \<lparr> match_results = (match_results st)(a_order_number agg \<mapsto>
                       \<lparr> matched = False,
                         dwh_idx = None,
                         dwh_data = None,
                         mi_order_category = ''Not Matched'',
                         mi_match_status = status,
                         mi_match_confidence = confidence_map status,
                         cross_midnight = cross,
                         mi_net_sales_value = net_sales_value agg,
                         mi_gross_order_value = gross_order_value agg,
                         mi_unavailable_items_adjustment = unavailable_items_adjustment agg \<rparr>),
                     used_dwh_ids = used_dwh_ids st \<rparr>))"

fun match_loop ::
  "dwh_lookup \<Rightarrow> (nat \<times> dwh_row) list \<Rightarrow> (string \<rightharpoonup> int option) \<Rightarrow> agg_row list \<Rightarrow> match_state
     \<Rightarrow> error + match_state" where
  "match_loop dwh_lookup dwh_completed order_timestamps [] st = Inr st"
| "match_loop dwh_lookup dwh_completed order_timestamps (agg # rest) st =
     (case match_step dwh_lookup dwh_completed order_timestamps agg st of
        Inl e \<Rightarrow> Inl e
      | Inr st' \<Rightarrow> match_loop dwh_lookup dwh_completed order_timestamps rest st')"

definition initial_state :: match_state where
  "initial_state = \<lparr> match_results = Map.empty, used_dwh_ids = {} \<rparr>"

text \<open>Steps 2 to 4 together, for a table that has order rows.\<close>

definition run_matching :: "dr_row list \<Rightarrow> dwh_row list \<Rightarrow> error + match_state" where
  "run_matching dr_df dwh_df =
     (let dwh_completed = dwh_completed_of dwh_df;
          agg_df = aggregate_order_values dr_df;
          order_timestamps = order_timestamps_of (filter is_order dr_df) Map.empty;
          dwh_lookup = build_lookup dwh_completed Map.empty;
          agg_df_sorted = sort_values_delivery_date agg_df
      in match_loop dwh_lookup dwh_completed order_timestamps agg_df_sorted initial_state)"

section \<open>Result propagation and the quality check\<close>

text \<open>Step 5: the loop body that annotates one original row.\<close>

definition propagate_row :: "(string \<rightharpoonup> match_info) \<Rightarrow> dr_row \<Rightarrow> out_row" where
  "propagate_row results r =
     (case results (order_number r) of
        Some match_info \<Rightarrow>
          (if matched match_info
           then (if is_order r
                 then \<lparr> row = r,
                        out_net_sales_value = Some (mi_net_sales_value match_info),
                        out_gross_order_value = Some (mi_gross_order_value match_info),
                        out_unavailable_items_adjustment =
                          Some (mi_unavailable_items_adjustment match_info),
                        out_dwh = dwh_data match_info,
                        order_category = mi_order_category match_info,
                        match_status = mi_match_status match_info,
                        match_confidence = Some (mi_match_confidence match_info) \<rparr>
                 else \<lparr> row = r,
                        out_net_sales_value = Some (mi_net_sales_value match_info),
                        out_gross_order_value = Some (mi_gross_order_value match_info),
                        out_unavailable_items_adjustment =
                          Some (mi_unavailable_items_adjustment match_info),
                        out_dwh = dwh_data match_info,
                        order_category = ''Linked to Order'',
                        match_status = ''LINKED'',
                        match_confidence = Some ''Inherited'' \<rparr>)
           else \<lparr> row = r,
                  out_net_sales_value = Some (mi_net_sales_value match_info),
                  out_gross_order_value = Some (mi_gross_order_value match_info),
                  out_unavailable_items_adjustment =
                    Some (mi_unavailable_items_adjustment match_info),
                  out_dwh = None,
                  order_category =
                    (if is_order r then ''Not Matched'' else ''Linked to Unmatched''),
                  match_status = mi_match_status match_info,
                  match_confidence = Some (mi_match_confidence match_info) \<rparr>)
      | None \<Rightarrow>
          \<lparr> row = r,
            out_net_sales_value = Some 0,
            out_gross_order_value = Some 0,
            out_unavailable_items_adjustment = Some 0,
            out_dwh = None,
            order_category = ''Standalone Adjustment'',
            match_status = ''N/A'',
            match_confidence = Some ''N/A'' \<rparr>)"

definition is_matched_category :: "string \<Rightarrow> bool" where
  "is_matched_category c = (c = ''Matched'' \<or> c = ''Matched (Grouped)'')"

text \<open>The table has the column \<^verbatim>\<open>dwh_post_promo_sales_inc_vat\<close> when some row received the
  warehouse columns.\<close>

definition has_dwh_columns :: "out_row list \<Rightarrow> bool" where
  "has_dwh_columns result_df = list_ex (\<lambda>r. out_dwh r \<noteq> None) result_df"

definition dwh_val_of :: "out_row \<Rightarrow> real" where
  "dwh_val_of r = (case out_dwh r of None \<Rightarrow> 0 | Some d \<Rightarrow> dwh_post_promo_sales_inc_vat d)"

definition variance_pct :: "out_row \<Rightarrow> real" where
  "variance_pct r =
     (let net_val = fillna0 (out_net_sales_value r);
          dwh_val = dwh_val_of r
      in if 0 < net_val then \<bar>net_val - dwh_val\<bar> / net_val * 100 else 0)"

definition high_variance :: "out_row \<Rightarrow> bool" where
  "high_variance r = (is_matched_category (order_category r) \<and> 20 < variance_pct r)"

text \<open>Step 6: the post-match quality check, on one row and on the table.\<close>

definition flag_review :: "out_row \<Rightarrow> out_row" where
  "flag_review r =
     (if high_variance r
      then r\<lparr>match_confidence := map_option (\<lambda>s. s @ '' - Review'') (match_confidence r)\<rparr>
      else r)"

definition quality_check :: "out_row list \<Rightarrow> out_row list" where
  "quality_check result_df =
     (if has_dwh_columns result_df then map flag_review result_df else result_df)"

text \<open>The rows of the early return for a table without order rows: two columns are set,
  the others are not there.\<close>

definition no_orders_row :: "dr_row \<Rightarrow> out_row" where
  "no_orders_row r =
     \<lparr> row = r,
       out_net_sales_value = None,
       out_gross_order_value = None,
       out_unavailable_items_adjustment = None,
       out_dwh = None,
       order_category = ''No Orders'',
       match_status = ''N/A'',
       match_confidence = None \<rparr>"

text \<open>
  \<^verbatim>\<open>match_deliveroo_orders\<close>: the early return for a table without order rows, otherwise
  steps 2 to 6. The tables are typed, so the guards for a table that lacks the
  \<^verbatim>\<open>accounting_category\<close> or the \<^verbatim>\<open>order_last4\<close> column never fire and are left out.
\<close>

definition match_deliveroo_orders :: "dr_row list \<Rightarrow> dwh_row list \<Rightarrow> error + out_row list" where
  "match_deliveroo_orders dr_df dwh_df =
     (if filter is_order dr_df = [] then Inr (map no_orders_row dr_df)
      else (case run_matching dr_df dwh_df of
              Inl e \<Rightarrow> Inl e
            | Inr st \<Rightarrow> Inr (quality_check (map (propagate_row (match_results st)) dr_df))))"

section \<open>Variance calculation\<close>

definition classify :: "real \<Rightarrow> string \<times> string" where
  "classify abs_variance =
     (if abs_variance < 0.02 then (''Exact Match'', ''Exact Match'')
      else if abs_variance < 0.10 then (''Exact Match'', ''Rounding'')
      else if abs_variance < 1.00 then (''Minor Variance'', ''Minor Variance'')
      else (''Value Variance'', ''Unexplained Variance''))"

definition variance_of :: "out_row \<Rightarrow> real" where
  "variance_of r = round2 (round2 (fillna0 (out_net_sales_value r)) - round2 (dwh_val_of r))"

text \<open>
  \<^verbatim>\<open>calculate_variances\<close> on one row; \<open>cols\<close> says whether the table has both the
  \<^verbatim>\<open>dwh_post_promo_sales_inc_vat\<close> and the \<^verbatim>\<open>net_sales_value\<close> column. The masks are
  applied in the order of the source, so the assignment for linked rows comes after the
  four variance classes, and the zeroing of the other rows' variance last.
\<close>

definition calculate_variance_row :: "bool \<Rightarrow> out_row \<Rightarrow> var_row" where
  "calculate_variance_row cols r =
     (let matched_mask = is_matched_category (order_category r);
          linked_mask = (order_category r = ''Linked to Order'');
          v = (if cols then variance_of r else 0);
          labels = (if cols
                    then (if linked_mask then (''Linked'', ''See Parent Order'')
                          else if matched_mask then classify \<bar>v\<bar>
                          else (''N/A'', ''N/A''))
                    else (''No DWH Value'', ''N/A''))
      in \<lparr> base = r,
           amount_variance = (if matched_mask \<or> linked_mask then v else 0),
           matched_amount = fst labels,
           variance_explanation = snd labels \<rparr>)"

definition has_net_column :: "out_row list \<Rightarrow> bool" where
  "has_net_column df = list_ex (\<lambda>r. out_net_sales_value r \<noteq> None) df"

definition calculate_variances :: "out_row list \<Rightarrow> var_row list" where
  "calculate_variances df =
     map (calculate_variance_row (has_dwh_columns df \<and> has_net_column df)) df"

text \<open>Steps 3 and 4 of \<^verbatim>\<open>run_dr_reconciliation\<close>: match, then calculate the variances.\<close>

definition reconcile :: "dr_row list \<Rightarrow> dwh_row list \<Rightarrow> error + var_row list" where
  "reconcile dr_df dwh_df =
     (case match_deliveroo_orders dr_df dwh_df of
        Inl e \<Rightarrow> Inl e
      | Inr merged_df \<Rightarrow> Inr (calculate_variances merged_df))"

section \<open>Notions used to state the properties\<close>

text \<open>
  The specification's window test, in its own words: the interval from
  \<open>window_start_timestamp\<close> to \<open>window_end_timestamp\<close> plus the buffer contains the order's
  event timestamp. An interval with a missing end point, or a missing event timestamp,
  contains nothing.
\<close>

definition spec_window_contains :: "nat \<Rightarrow> int option \<Rightarrow> cand \<Rightarrow> bool" where
  "spec_window_contains buffer_hours dr_ts c =
     (case dr_ts of
        None \<Rightarrow> False
      | Some t \<Rightarrow>
          (case created_at_ts c of
             None \<Rightarrow> False
           | Some window_start \<Rightarrow>
               (case delivered_at_ts c of
                  None \<Rightarrow> False
                | Some window_end \<Rightarrow>
                    window_start \<le> t \<and> t \<le> window_end + 3600 * int buffer_hours)))"


text \<open>What the loop body makes of the result of the value stage.\<close>

definition value_stage :: "cand list \<Rightarrow> real \<Rightarrow> cand option \<times> string" where
  "value_stage available net_value =
     (case fst (resolve_collision_by_value (Some net_value) available 0.10) of
        Some c \<Rightarrow> (Some c, ''MATCHED_BY_VALUE'')
      | None \<Rightarrow> (None, ''COLLISION''))"

text \<open>
  Invariants of the matching loop. The lookup is sound when each candidate in it is the
  candidate made from the row of \<^verbatim>\<open>dwh_completed\<close> with its index. A stored result is in
  order when its confidence is that of its status, a matched one carries the warehouse row
  of its index, whose \<^verbatim>\<open>gp_order_id\<close> is in the used set, and an unmatched one carries
  none.
\<close>

definition lookup_sound :: "(nat \<times> dwh_row) list \<Rightarrow> dwh_lookup \<Rightarrow> bool" where
  "lookup_sound dwh_completed dwh_lookup =
     (\<forall>key c. c \<in> set (lookup_get dwh_lookup key)
        \<longrightarrow> (\<exists>r. map_of dwh_completed (idx c) = Some r \<and> c = make_cand (idx c) r))"

definition info_ok :: "(nat \<times> dwh_row) list \<Rightarrow> string set \<Rightarrow> match_info \<Rightarrow> bool" where
  "info_ok dwh_completed used info =
     (mi_match_confidence info = confidence_map (mi_match_status info) \<and>
      (if matched info
      then (\<exists>i d. dwh_idx info = Some i \<and> dwh_data info = Some d
              \<and> map_of dwh_completed i = Some d
              \<and> dwh_gp_order_id d \<in> used
              \<and> is_matched_category (mi_order_category info))
      else dwh_idx info = None \<and> dwh_data info = None
           \<and> mi_order_category info = ''Not Matched''))"

definition results_inv :: "(nat \<times> dwh_row) list \<Rightarrow> match_state \<Rightarrow> bool" where
  "results_inv dwh_completed st =
     (\<forall>order_num info. match_results st order_num = Some info
        \<longrightarrow> info_ok dwh_completed (used_dwh_ids st) info)"

definition results_unique :: "match_state \<Rightarrow> bool" where
  "results_unique st =
     (\<forall>o1 o2 m1 m2 d1 d2.
        o1 \<noteq> o2 \<and> match_results st o1 = Some m1 \<and> match_results st o2 = Some m2
        \<and> dwh_data m1 = Some d1 \<and> dwh_data m2 = Some d2
        \<longrightarrow> dwh_gp_order_id d1 \<noteq> dwh_gp_order_id d2)"

text \<open>Example tables for the concrete scenarios: rows with the fields that matter, the
  timestamp of day \<open>d\<close> at second \<open>s\<close> being \<open>86400 * d + s\<close>.\<close>

definition mk_order :: "string \<Rightarrow> string \<Rightarrow> string \<Rightarrow> int \<Rightarrow> int \<Rightarrow> real \<Rightarrow> dr_row" where
  "mk_order num last4 mfc day ts gross =
     \<lparr> order_number = num, accounting_category = ''Order Value & Commission'',
       order_last4 = last4, mfc_name = mfc, delivery_date = Some day, dr_delivery_ts = Some ts,
       order_value_gross = Some gross, marketing_offer_discount = Some 0,
       adjustment_gross = Some 0 \<rparr>"

definition mk_fee :: "string \<Rightarrow> string \<Rightarrow> string \<Rightarrow> int \<Rightarrow> int \<Rightarrow> real \<Rightarrow> dr_row" where
  "mk_fee num last4 mfc day ts adj =
     \<lparr> order_number = num, accounting_category = ''Additional Fees'',
       order_last4 = last4, mfc_name = mfc, delivery_date = Some day, dr_delivery_ts = Some ts,
       order_value_gross = Some 0, marketing_offer_discount = Some 0,
       adjustment_gross = Some adj \<rparr>"

definition mk_dwh :: "string \<Rightarrow> string \<Rightarrow> string \<Rightarrow> int \<Rightarrow> real \<Rightarrow> int \<Rightarrow> int \<Rightarrow> dwh_row" where
  "mk_dwh gp mp location day v created delivered =
     \<lparr> dwh_gp_order_id = gp, dwh_mp_order_id = mp, dwh_location_name = location,
       dwh_created_at_day = Some day, dwh_order_completed = 1,
       dwh_post_promo_sales_inc_vat = v,
       dwh_created_at_ts = Some created, dwh_delivered_at_ts = Some delivered \<rparr>"

definition ex_dr :: "dr_row list" where
  "ex_dr = [mk_order ''A'' ''1234'' ''StoreA'' 100 8640600 20,
            mk_order ''B'' ''1234'' ''StoreA'' 100 8650000 30]"

definition ex_dwh :: "dwh_row list" where
  "ex_dwh = [mk_dwh ''G1'' ''1234'' ''StoreA'' 100 20 8640000 8640900,
             mk_dwh ''G2'' ''1234'' ''StoreA'' 100 30 8649000 8649900]"

text \<open>The condition of the quality check, written without the division: the order's net
  value is positive and the difference exceeds 20% of it.\<close>

definition review_due :: "real \<Rightarrow> real \<Rightarrow> bool" where
  "review_due net_value dwh_val = (0 < net_value \<and> 0.20 * net_value < \<bar>net_value - dwh_val\<bar>)"

text \<open>An order of net value 100 whose only candidate has the value 125.\<close>

definition review_dr :: "dr_row list" where
  "review_dr = [mk_order ''A'' ''1234'' ''StoreA'' 100 8640600 100]"

definition review_dwh :: "dwh_row list" where
  "review_dwh = [mk_dwh ''G1'' ''1234'' ''StoreA'' 100 125 8640000 8640900]"

text \<open>A table with a fee row and no order row.\<close>

definition fees_only_dr :: "dr_row list" where
  "fees_only_dr = [mk_fee ''A'' ''1234'' ''StoreA'' 100 8640600 (- 2)]"

text \<open>The severity order of the variance classes.\<close>

definition severity :: "string \<Rightarrow> nat" where
  "severity label =
     (if label = ''Exact Match'' then 0
      else if label = ''Rounding'' then 1
      else if label = ''Minor Variance'' then 2
      else 3)"

text \<open>An order of net value 100.00 matched to the warehouse value 100.03, and one of net
  value 10.014 matched to 9.996.\<close>

definition rounding_dr :: "dr_row list" where
  "rounding_dr = [mk_order ''A'' ''1234'' ''StoreA'' 100 8640600 100.00]"

definition rounding_dwh :: "dwh_row list" where
  "rounding_dwh = [mk_dwh ''G1'' ''1234'' ''StoreA'' 100 100.03 8640000 8640900]"

definition subpenny_dr :: "dr_row list" where
  "subpenny_dr = [mk_order ''A'' ''1234'' ''StoreA'' 100 8640600 10.014]"

definition subpenny_dwh :: "dwh_row list" where
  "subpenny_dwh = [mk_dwh ''G1'' ''1234'' ''StoreA'' 100 9.996 8640000 8640900]"

text \<open>An order of gross value 10 with a fee row of -2, matched to the warehouse value 8.\<close>

definition linked_dr :: "dr_row list" where
  "linked_dr = [mk_order ''A'' ''1234'' ''StoreA'' 100 8640600 10,
                mk_fee ''A'' ''1234'' ''StoreA'' 100 8640600 (- 2)]"

definition linked_dwh :: "dwh_row list" where
  "linked_dwh = [mk_dwh ''G1'' ''1234'' ''StoreA'' 100 8 8640000 8640900]"

text \<open>
  Totals for the conservation property. On the output side: the sum of \<^verbatim>\<open>net_sales_value\<close>
  over all rows, and over the order rows. On the input side: the net value computed from
  the raw rows, the gross order value of the order rows plus the adjustments of the fee
  rows, once over all fee rows and once over the fee rows whose number is that of an order
  row.
\<close>

definition all_rows_net_total :: "out_row list \<Rightarrow> real" where
  "all_rows_net_total out = sum_list (map (\<lambda>q. fillna0 (out_net_sales_value q)) out)"

definition order_rows_net_total :: "out_row list \<Rightarrow> real" where
  "order_rows_net_total out =
     sum_list (map (\<lambda>q. fillna0 (out_net_sales_value q)) (filter (\<lambda>q. is_order (row q)) out))"

definition raw_gross_total :: "dr_row list \<Rightarrow> real" where
  "raw_gross_total dr_df =
     sum_list (map (\<lambda>r. fillna0 (order_value_gross r) + fillna0 (marketing_offer_discount r))
                   (filter is_order dr_df))"

definition raw_net_total :: "dr_row list \<Rightarrow> real" where
  "raw_net_total dr_df =
     raw_gross_total dr_df
     + sum_list (map (\<lambda>f. fillna0 (adjustment_gross f)) (filter is_fee dr_df))"

definition raw_parented_net_total :: "dr_row list \<Rightarrow> real" where
  "raw_parented_net_total dr_df =
     raw_gross_total dr_df
     + sum_list (map (\<lambda>f. fillna0 (adjustment_gross f))
         (filter (\<lambda>f. order_number f \<in> order_number ` set (filter is_order dr_df))
                 (filter is_fee dr_df)))"

text \<open>An order of gross value 10, a fee row of -2 for it, and a fee row of -3 for an order
  number without an order row.\<close>

definition conservation_dr :: "dr_row list" where
  "conservation_dr = [mk_order ''A'' ''1234'' ''StoreA'' 100 8640600 10,
                      mk_fee ''A'' ''1234'' ''StoreA'' 100 8640600 (- 2),
                      mk_fee ''Z'' ''9999'' ''StoreA'' 100 8640700 (- 3)]"

definition conservation_out :: "out_row list" where
  "conservation_out =
     [\<lparr> row = mk_order ''A'' ''1234'' ''StoreA'' 100 8640600 10,
        out_net_sales_value = Some 8,
        out_gross_order_value = Some 10,
        out_unavailable_items_adjustment = Some (- 2),
        out_dwh = Some (mk_dwh ''G1'' ''1234'' ''StoreA'' 100 8 8640000 8640900),
        order_category = ''Matched (Grouped)'',
        match_status = ''MATCHED'',
        match_confidence = Some ''High'' \<rparr>,
      \<lparr> row = mk_fee ''A'' ''1234'' ''StoreA'' 100 8640600 (- 2),
        out_net_sales_value = Some 8,
        out_gross_order_value = Some 10,
        out_unavailable_items_adjustment = Some (- 2),
        out_dwh = Some (mk_dwh ''G1'' ''1234'' ''StoreA'' 100 8 8640000 8640900),
        order_category = ''Linked to Order'',
        match_status = ''LINKED'',
        match_confidence = Some ''Inherited'' \<rparr>,
      \<lparr> row = mk_fee ''Z'' ''9999'' ''StoreA'' 100 8640700 (- 3),
        out_net_sales_value = Some 0,
        out_gross_order_value = Some 0,
        out_unavailable_items_adjustment = Some 0,
        out_dwh = None,
        order_category = ''Standalone Adjustment'',
        match_status = ''N/A'',
        match_confidence = Some ''N/A'' \<rparr>]"

text \<open>Two orders of one delivery date with the same match key, the first row of the table
  delivered at 10:00, the second at 09:00, and one warehouse record for that key, whose
  window holds 09:00.\<close>

definition same_day_dr :: "dr_row list" where
  "same_day_dr = [mk_order ''A'' ''1234'' ''StoreA'' 100 8676000 20,
                  mk_order ''B'' ''1234'' ''StoreA'' 100 8672400 20]"

definition same_day_dwh :: "dwh_row list" where
  "same_day_dwh = [mk_dwh ''G1'' ''1234'' ''StoreA'' 100 20 8671000 8673000]"




section \<open>Collision resolution: properties\<close>

lemma matching_candidates_filter:
  "matching_candidates ts b cs = filter (spec_window_contains b (Some ts)) cs"
  by (induction cs) (auto simp: spec_window_contains_def split: option.splits)

lemma best_match_loop_Some:
  "best_match_loop v cs (Some b) \<noteq> None"
  by (induction cs arbitrary: b) (simp_all add: Let_def)

lemma best_match_loop_nonempty:
  "cs \<noteq> [] \<Longrightarrow> best_match_loop v cs None \<noteq> None"
  by (cases cs) (simp_all add: Let_def best_match_loop_Some)

text \<open>The loop returns a candidate of the list at the least distance from the order's
  value, with that distance.\<close>

lemma best_match_loop_spec:
  assumes "best_match_loop v cs best = Some (c, d)"
    and "\<And>b bd. best = Some (b, bd) \<Longrightarrow> bd = \<bar>dwh_value b - v\<bar>"
  shows "d = \<bar>dwh_value c - v\<bar> \<and> (c \<in> set cs \<or> best = Some (c, d))
         \<and> (\<forall>c' \<in> set cs. d \<le> \<bar>dwh_value c' - v\<bar>)
         \<and> (\<forall>b bd. best = Some (b, bd) \<longrightarrow> d \<le> bd)"
  using assms
proof (induction cs arbitrary: best)
  case Nil
  then show ?case by auto
next
  case (Cons x xs)
  let ?diff = "\<bar>dwh_value x - v\<bar>"
  let ?best' = "if (case best of None \<Rightarrow> True | Some (_, best_diff) \<Rightarrow> ?diff < best_diff)
            then Some (x, ?diff) else best"
  have run: "best_match_loop v xs ?best' = Some (c, d)"
    using Cons.prems(1) by (simp add: Let_def)
  have inv: "\<And>b bd. ?best' = Some (b, bd) \<Longrightarrow> bd = \<bar>dwh_value b - v\<bar>"
    using Cons.prems(2) by (auto split: if_splits)
  from Cons.IH [OF run inv]
  have ih: "d = \<bar>dwh_value c - v\<bar>" "c \<in> set xs \<or> ?best' = Some (c, d)"
    "\<forall>c' \<in> set xs. d \<le> \<bar>dwh_value c' - v\<bar>"
    "\<forall>b bd. ?best' = Some (b, bd) \<longrightarrow> d \<le> bd"
    by blast+
  show ?case
  proof (cases "case best of None \<Rightarrow> True | Some (_, best_diff) \<Rightarrow> ?diff < best_diff")
    case True
    then have b': "?best' = Some (x, ?diff)" by simp
    with ih have "d \<le> ?diff" by simp
    moreover have "\<forall>b bd. best = Some (b, bd) \<longrightarrow> d \<le> bd"
      using True \<open>d \<le> ?diff\<close> by (auto split: option.splits)
    moreover have "c \<in> set (x # xs) \<or> best = Some (c, d)"
      using ih(2) b' by auto
    ultimately show ?thesis using ih by auto
  next
    case False
    then have b': "?best' = best" by simp
    from False obtain b bd where best: "best = Some (b, bd)" and le: "bd \<le> ?diff"
      by (auto split: option.splits)
    have "d \<le> bd" using ih(4) b' best by simp
    then have "d \<le> ?diff" using le by simp
    then show ?thesis using ih b' by auto
  qed
qed

text \<open>With two or more candidates the loop body is the timestamp stage followed by the
  value stage.\<close>

lemma choose_candidate_collision:
  assumes "2 \<le> length available"
  shows "choose_candidate available cross dr_ts net_value =
     (case filter (spec_window_contains 1 dr_ts) available of
        [c] \<Rightarrow> (Some c, ''MATCHED_BY_TIMESTAMP'')
      | _ \<Rightarrow> value_stage available net_value)"
proof -
  obtain a b rest where av: "available = a # b # rest"
    using assms by (cases available; cases "tl available") auto
  show ?thesis
  proof (cases dr_ts)
    case None
    then show ?thesis
      by (auto simp: av choose_candidate_def resolve_collision_by_timestamp_def value_stage_def
          spec_window_contains_def Let_def split: prod.splits option.splits)
  next
    case (Some t)
    have f: "matching_candidates t 1 (a # b # rest)
             = filter (spec_window_contains 1 (Some t)) (a # b # rest)"
      by (rule matching_candidates_filter)
    show ?thesis
      unfolding av choose_candidate_def resolve_collision_by_timestamp_def value_stage_def Some
      by (simp only: f list.case option.case)
         (auto simp: Let_def split: list.splits prod.splits option.splits)
  qed
qed

lemma timestamp_stage_fails_iff:
  "fst (resolve_collision_by_timestamp dr_ts available 1) = None
   \<longleftrightarrow> length (filter (spec_window_contains 1 dr_ts) available) \<noteq> 1"
  by (cases dr_ts)
     (auto simp: resolve_collision_by_timestamp_def matching_candidates_filter
        spec_window_contains_def split: list.splits)

lemma value_stage_closest:
  assumes "available \<noteq> []"
  shows "\<exists>c \<in> set available.
           (\<forall>c' \<in> set available. \<bar>dwh_value c - net_value\<bar> \<le> \<bar>dwh_value c' - net_value\<bar>)
           \<and> value_stage available net_value =
               (if \<bar>dwh_value c - net_value\<bar> < 0.10
                   \<or> \<bar>dwh_value c - net_value\<bar> < 0.01 * dwh_value c
                then (Some c, ''MATCHED_BY_VALUE'') else (None, ''COLLISION''))"
proof -
  obtain c d where run: "best_match_loop net_value available None = Some (c, d)"
    using best_match_loop_nonempty [OF assms, of net_value] by auto
  from best_match_loop_spec [OF run]
  have d: "d = \<bar>dwh_value c - net_value\<bar>" and mem: "c \<in> set available"
    and least: "\<forall>c' \<in> set available. d \<le> \<bar>dwh_value c' - net_value\<bar>"
    by auto
  have pct: "(0 < dwh_value c \<and> d / dwh_value c < 0.01) \<longleftrightarrow> d < 0.01 * dwh_value c"
  proof (cases "0 < dwh_value c")
    case True
    then show ?thesis by (simp add: pos_divide_less_eq)
  next
    case False
    have "0 \<le> d" using d by simp
    moreover have "0.01 * dwh_value c \<le> 0" using False by (simp add: mult_le_0_iff)
    ultimately show ?thesis using False by auto
  qed
  have "value_stage available net_value =
          (if d < 0.10 \<or> d < 0.01 * dwh_value c
           then (Some c, ''MATCHED_BY_VALUE'') else (None, ''COLLISION''))"
    using pct by (auto simp: value_stage_def resolve_collision_by_value_def run)
  then show ?thesis using mem least d by blast
qed




text \<open>
  Claim C5. For a collision that reaches the value stage (two or more available
  candidates, no match by timestamp), a candidate whose value is closest to the order's
  net value is selected; it is accepted with status \<^verbatim>\<open>MATCHED_BY_VALUE\<close> exactly when the
  absolute difference is below 0.10 or below 1% of that candidate's value, and otherwise
  no candidate is assigned and the status is the unresolved collision, \<^verbatim>\<open>COLLISION\<close>.
  The instance that follows is the scenario of the specification: net value 88.50 against
  the values 12.00 and 88.52.
\<close>

theorem value_resolution_selects_closest:
  assumes "2 \<le> length available"
    and "fst (resolve_collision_by_timestamp dr_ts available 1) = None"
  shows "\<exists>c \<in> set available.
           (\<forall>c' \<in> set available. \<bar>dwh_value c - net_value\<bar> \<le> \<bar>dwh_value c' - net_value\<bar>)
           \<and> choose_candidate available cross dr_ts net_value =
               (if \<bar>dwh_value c - net_value\<bar> < 0.10
                   \<or> \<bar>dwh_value c - net_value\<bar> < 0.01 * dwh_value c
                then (Some c, ''MATCHED_BY_VALUE'') else (None, ''COLLISION''))"
proof -
  have ne: "available \<noteq> []" using assms(1) by auto
  have "length (filter (spec_window_contains 1 dr_ts) available) \<noteq> 1"
    using assms(2) timestamp_stage_fails_iff [of dr_ts available] by blast
  then have "choose_candidate available cross dr_ts net_value = value_stage available net_value"
    by (auto simp: choose_candidate_collision [OF assms(1)] split: list.splits)
  then show ?thesis using value_stage_closest [OF ne, of net_value] by simp
qed

theorem value_resolution_selects_closest_witness:
  "2 \<le> length [\<lparr>idx = 0, gp_order_id = ''G1'', dwh_value = 12.00, created_at_ts = None, delivered_at_ts = None\<rparr>,
                 \<lparr>idx = 1, gp_order_id = ''G2'', dwh_value = 88.52, created_at_ts = None, delivered_at_ts = None\<rparr>]
   \<and> fst (resolve_collision_by_timestamp (Some 1000)
        [\<lparr>idx = 0, gp_order_id = ''G1'', dwh_value = 12.00, created_at_ts = None, delivered_at_ts = None\<rparr>,
         \<lparr>idx = 1, gp_order_id = ''G2'', dwh_value = 88.52, created_at_ts = None, delivered_at_ts = None\<rparr>] 1) = None
   \<and> choose_candidate
        [\<lparr>idx = 0, gp_order_id = ''G1'', dwh_value = 12.00, created_at_ts = None, delivered_at_ts = None\<rparr>,
         \<lparr>idx = 1, gp_order_id = ''G2'', dwh_value = 88.52, created_at_ts = None, delivered_at_ts = None\<rparr>]
        False (Some 1000) 88.50
      = (Some \<lparr>idx = 1, gp_order_id = ''G2'', dwh_value = 88.52, created_at_ts = None, delivered_at_ts = None\<rparr>,
         ''MATCHED_BY_VALUE'')"
proof -
  let ?a = "\<lparr>idx = 0, gp_order_id = ''G1'', dwh_value = 12.00, created_at_ts = None, delivered_at_ts = None\<rparr>"
  let ?b = "\<lparr>idx = 1, gp_order_id = ''G2'', dwh_value = 88.52, created_at_ts = None, delivered_at_ts = None\<rparr>"
  have h1: "2 \<le> length [?a, ?b]" by simp
  have h2: "fst (resolve_collision_by_timestamp (Some 1000) [?a, ?b] 1) = None"
    by (simp add: resolve_collision_by_timestamp_def)
  from value_resolution_selects_closest [OF h1 h2, of "88.50" False]
  have "choose_candidate [?a, ?b] False (Some 1000) 88.50 = (Some ?b, ''MATCHED_BY_VALUE'')"
    by auto
  with h1 h2 show ?thesis by blast
qed



section \<open>The matching loop: invariants\<close>

lemma value_result_mem:
  "fst (resolve_collision_by_value (Some v) cs tol) = Some c \<Longrightarrow> c \<in> set cs"
proof -
  assume a: "fst (resolve_collision_by_value (Some v) cs tol) = Some c"
  then obtain d where run: "best_match_loop v cs None = Some (c, d)"
    by (auto simp: resolve_collision_by_value_def split: option.splits if_splits)
  from best_match_loop_spec [OF run] show ?thesis by auto
qed

lemma choose_candidate_mem:
  assumes "choose_candidate available cross dr_ts net_value = (Some c, s)"
  shows "c \<in> set available"
proof (cases "2 \<le> length available")
  case True
  show ?thesis
  proof (cases "\<exists>x. filter (spec_window_contains 1 dr_ts) available = [x]")
    case ex: True
    then obtain x where x: "filter (spec_window_contains 1 dr_ts) available = [x]" by blast
    then have "x \<in> set (filter (spec_window_contains 1 dr_ts) available)" by simp
    moreover have "x = c" using assms x by (simp add: choose_candidate_collision [OF True])
    ultimately show ?thesis by simp
  next
    case False
    then have "choose_candidate available cross dr_ts net_value = value_stage available net_value"
      by (auto simp: choose_candidate_collision [OF True] split: list.splits)
    then have "fst (resolve_collision_by_value (Some net_value) available 0.10) = Some c"
      using assms by (auto simp: value_stage_def split: option.splits)
    then show ?thesis by (rule value_result_mem)
  qed
next
  case False
  then have "available = [] \<or> (\<exists>x. available = [x])"
    by (cases available; cases "tl available") auto
  then show ?thesis using assms by (auto simp: choose_candidate_def)
qed

lemma available_for_props:
  "c \<in> set (available_for L used key) \<Longrightarrow> gp_order_id c \<notin> used \<and> c \<in> set (lookup_get L key)"
  by (simp add: available_for_def)

lemma find_available_props:
  assumes "c \<in> set (fst (find_available L used agg))"
  shows "gp_order_id c \<notin> used \<and> (\<exists>key. c \<in> set (lookup_get L key))"
  using assms
  by (auto simp: find_available_def Let_def dest: available_for_props split: if_splits)

lemma resolve_order_props:
  assumes "resolve_order L used T agg = ((Some c, s), cross)"
  shows "gp_order_id c \<notin> used \<and> (\<exists>key. c \<in> set (lookup_get L key))"
proof -
  obtain av cr where fa: "find_available L used agg = (av, cr)" by (cases "find_available L used agg")
  with assms have "\<exists>ts. choose_candidate av cr ts (net_sales_value agg) = (Some c, s)"
    by (auto simp: resolve_order_def)
  then have "c \<in> set av" using choose_candidate_mem by blast
  then show ?thesis using find_available_props [of c L used agg] fa by simp
qed

lemma resolve_order_status:
  assumes "resolve_order L used T agg = ((mc, s), cross)"
  shows "s \<in> {''NO_DWH_RECORD'', ''MATCHED'', ''MATCHED_CROSS_MIDNIGHT'', ''MATCHED_BY_TIMESTAMP'',
              ''MATCHED_BY_VALUE'', ''COLLISION''}"
  using assms
  by (auto simp: resolve_order_def choose_candidate_def split: prod.splits list.splits option.splits if_splits)

lemma lookup_get_upd:
  "lookup_get (L(k \<mapsto> v)) k' = (if k' = k then v else lookup_get L k')"
  by (simp add: lookup_get_def)

lemma build_lookup_sound_aux:
  assumes "\<forall>key c. c \<in> set (lookup_get L key) \<longrightarrow> P c"
    and "\<forall>(i, r) \<in> set rows. P (make_cand i r)"
  shows "\<forall>key c. c \<in> set (lookup_get (build_lookup rows L) key) \<longrightarrow> P c"
  using assms
proof (induction rows arbitrary: L)
  case Nil
  then show ?case by simp
next
  case (Cons x rows)
  obtain i r where x: "x = (i, r)" by (cases x)
  have rest: "\<forall>(i, r) \<in> set rows. P (make_cand i r)" using Cons.prems(2) by simp
  have here: "P (make_cand i r)" using Cons.prems(2) x by simp
  show ?case
  proof (cases "strip (dwh_mp_order_id r) \<noteq> [] \<and> strip (dwh_location_name r) \<noteq> []
                 \<and> strip (dwh_mp_order_id r) \<noteq> ''nan''")
    case True
    let ?key = "(strip (dwh_mp_order_id r), strip (dwh_location_name r), dwh_created_at_day r)"
    let ?L' = "L(?key \<mapsto> lookup_get L ?key @ [make_cand i r])"
    have "\<forall>key c. c \<in> set (lookup_get ?L' key) \<longrightarrow> P c"
      using Cons.prems(1) here by (auto simp: lookup_get_upd)
    note ih = Cons.IH [OF this rest]
    have "build_lookup (x # rows) L = build_lookup rows ?L'"
      using True x by (simp add: Let_def)
    then show ?thesis using ih by (simp only:)
  next
    case False
    note ih = Cons.IH [OF Cons.prems(1) rest]
    have "build_lookup (x # rows) L = build_lookup rows L"
      using False x by (auto simp: Let_def)
    then show ?thesis using ih by (simp only:)
  qed
qed

lemma distinct_dwh_completed: "distinct (map fst (dwh_completed_of dwh_df))"
proof -
  have "distinct (map fst (zip [0 ..< length dwh_df] dwh_df))" by simp
  then show ?thesis unfolding dwh_completed_of_def by (rule distinct_map_filter)
qed

lemma lookup_sound_build:
  assumes "distinct (map fst D)"
  shows "lookup_sound D (build_lookup D Map.empty)"
proof -
  let ?P = "\<lambda>c. \<exists>r. map_of D (idx c) = Some r \<and> c = make_cand (idx c) r"
  have a: "\<forall>key c. c \<in> set (lookup_get Map.empty key) \<longrightarrow> ?P c"
    by (simp add: lookup_get_def)
  have b: "\<forall>(i, r) \<in> set D. ?P (make_cand i r)"
    using assms by (auto simp: make_cand_def)
  from build_lookup_sound_aux [of Map.empty ?P D, OF a b]
  show ?thesis unfolding lookup_sound_def by blast
qed

text \<open>One step of the loop, spelled out: it never fails when the lookup is sound.\<close>

lemma match_step_matched:
  assumes "resolve_order L (used_dwh_ids st) T agg = ((Some c, s), cross)"
    and "map_of D (idx c) = Some r"
  shows "match_step L D T agg st =
     Inr \<lparr> match_results = (match_results st)(a_order_number agg \<mapsto>
              \<lparr> matched = True, dwh_idx = Some (idx c), dwh_data = Some r,
                mi_order_category = (if has_refund agg then ''Matched (Grouped)'' else ''Matched''),
                mi_match_status = s, mi_match_confidence = confidence_map s,
                cross_midnight = cross,
                mi_net_sales_value = net_sales_value agg,
                mi_gross_order_value = gross_order_value agg,
                mi_unavailable_items_adjustment = unavailable_items_adjustment agg \<rparr>),
            used_dwh_ids = insert (gp_order_id c) (used_dwh_ids st) \<rparr>"
  using assms by (simp add: match_step_def loc_def)

lemma match_step_unmatched:
  assumes "resolve_order L (used_dwh_ids st) T agg = ((None, s), cross)"
  shows "match_step L D T agg st =
     Inr \<lparr> match_results = (match_results st)(a_order_number agg \<mapsto>
              \<lparr> matched = False, dwh_idx = None, dwh_data = None,
                mi_order_category = ''Not Matched'',
                mi_match_status = s, mi_match_confidence = confidence_map s,
                cross_midnight = cross,
                mi_net_sales_value = net_sales_value agg,
                mi_gross_order_value = gross_order_value agg,
                mi_unavailable_items_adjustment = unavailable_items_adjustment agg \<rparr>),
            used_dwh_ids = used_dwh_ids st \<rparr>"
  using assms by (simp add: match_step_def)

lemma match_step_cases:
  assumes "lookup_sound D L"
  obtains (hit) c s cross r where
      "resolve_order L (used_dwh_ids st) T agg = ((Some c, s), cross)"
      "map_of D (idx c) = Some r" "c = make_cand (idx c) r" "gp_order_id c \<notin> used_dwh_ids st"
    | (miss) s cross where "resolve_order L (used_dwh_ids st) T agg = ((None, s), cross)"
proof -
  obtain mc s cross where ro: "resolve_order L (used_dwh_ids st) T agg = ((mc, s), cross)"
    by (metis prod.exhaust)
  show ?thesis
  proof (cases mc)
    case None
    then show ?thesis using ro miss by simp
  next
    case (Some c)
    with ro have ro': "resolve_order L (used_dwh_ids st) T agg = ((Some c, s), cross)" by simp
    from resolve_order_props [OF ro'] obtain key where
      nu: "gp_order_id c \<notin> used_dwh_ids st" and mem: "c \<in> set (lookup_get L key)" by blast
    from assms mem obtain r where "map_of D (idx c) = Some r" "c = make_cand (idx c) r"
      unfolding lookup_sound_def by blast
    then show ?thesis using hit ro' nu by blast
  qed
qed

lemma match_step_succeeds:
  assumes "lookup_sound D L"
  shows "\<exists>st'. match_step L D T agg st = Inr st'"
  using assms
  by (rule match_step_cases [where st = st and T = T and agg = agg])
     (auto simp: match_step_matched match_step_unmatched)

lemma info_ok_mono: "info_ok D U info \<Longrightarrow> U \<subseteq> U' \<Longrightarrow> info_ok D U' info"
  unfolding info_ok_def by (auto split: if_splits)

lemma results_inv_update:
  assumes "results_inv D st" and "used_dwh_ids st \<subseteq> U" and "info_ok D U info"
  shows "results_inv D \<lparr> match_results = (match_results st)(k \<mapsto> info), used_dwh_ids = U \<rparr>"
  unfolding results_inv_def
proof (intro allI impI)
  fix order_num m
  assume a: "match_results \<lparr> match_results = (match_results st)(k \<mapsto> info), used_dwh_ids = U \<rparr> order_num
             = Some m"
  show "info_ok D (used_dwh_ids \<lparr> match_results = (match_results st)(k \<mapsto> info), used_dwh_ids = U \<rparr>) m"
  proof (cases "order_num = k")
    case True
    then show ?thesis using a assms(3) by simp
  next
    case False
    then have "match_results st order_num = Some m" using a by simp
    then have "info_ok D (used_dwh_ids st) m" using assms(1) unfolding results_inv_def by blast
    then show ?thesis using assms(2) info_ok_mono by simp
  qed
qed

lemma results_inv_used:
  assumes "results_inv D st" "match_results st order_num = Some m" "dwh_data m = Some d"
  shows "dwh_gp_order_id d \<in> used_dwh_ids st"
proof -
  have "info_ok D (used_dwh_ids st) m" using assms(1,2) unfolding results_inv_def by blast
  then show ?thesis using assms(3) unfolding info_ok_def by (auto split: if_splits)
qed

lemma results_unique_update:
  assumes "results_unique st"
    and "\<And>d o2 m2 d2. dwh_data info = Some d \<Longrightarrow> match_results st o2 = Some m2
           \<Longrightarrow> dwh_data m2 = Some d2 \<Longrightarrow> dwh_gp_order_id d \<noteq> dwh_gp_order_id d2"
  shows "results_unique \<lparr> match_results = (match_results st)(k \<mapsto> info), used_dwh_ids = U \<rparr>"
  unfolding results_unique_def
proof (intro allI impI)
  fix o1 o2 m1 m2 d1 d2
  let ?st' = "\<lparr> match_results = (match_results st)(k \<mapsto> info), used_dwh_ids = U \<rparr>"
  assume a: "o1 \<noteq> o2 \<and> match_results ?st' o1 = Some m1 \<and> match_results ?st' o2 = Some m2
        \<and> dwh_data m1 = Some d1 \<and> dwh_data m2 = Some d2"
  show "dwh_gp_order_id d1 \<noteq> dwh_gp_order_id d2"
  proof (cases "o1 = k")
    case True
    then have "m1 = info" "match_results st o2 = Some m2" using a by auto
    then show ?thesis using assms(2) a by blast
  next
    case o1: False
    then have m1: "match_results st o1 = Some m1" using a by auto
    show ?thesis
    proof (cases "o2 = k")
      case True
      then have "m2 = info" using a by auto
      then have "dwh_gp_order_id d2 \<noteq> dwh_gp_order_id d1" using assms(2) m1 a by blast
      then show ?thesis by simp
    next
      case False
      then have "match_results st o2 = Some m2" using a by auto
      then show ?thesis using assms(1) m1 a unfolding results_unique_def by blast
    qed
  qed
qed

lemma match_step_inv:
  assumes ls: "lookup_sound D L" and step: "match_step L D T agg st = Inr st'"
    and inv: "results_inv D st" and uniq: "results_unique st"
  shows "results_inv D st' \<and> results_unique st' \<and> used_dwh_ids st \<subseteq> used_dwh_ids st'"
  using ls
proof (cases rule: match_step_cases [where st = st and T = T and agg = agg])
  case (hit c s cross r)
  have gp: "gp_order_id c = dwh_gp_order_id r"
    using hit(3) by (metis cand.select_convs(2) make_cand_def)
  let ?info = "\<lparr> matched = True, dwh_idx = Some (idx c), dwh_data = Some r,
                mi_order_category = (if has_refund agg then ''Matched (Grouped)'' else ''Matched''),
                mi_match_status = s, mi_match_confidence = confidence_map s,
                cross_midnight = cross,
                mi_net_sales_value = net_sales_value agg,
                mi_gross_order_value = gross_order_value agg,
                mi_unavailable_items_adjustment = unavailable_items_adjustment agg \<rparr>"
  let ?U = "insert (gp_order_id c) (used_dwh_ids st)"
  have st': "st' = \<lparr> match_results = (match_results st)(a_order_number agg \<mapsto> ?info),
                      used_dwh_ids = ?U \<rparr>"
    using step match_step_matched [OF hit(1) hit(2)] by simp
  have ok: "info_ok D ?U ?info"
    using hit(2) gp by (simp add: info_ok_def is_matched_category_def)
  have i: "results_inv D st'"
    unfolding st' by (rule results_inv_update [OF inv _ ok]) auto
  have u: "results_unique st'"
    unfolding st'
  proof (rule results_unique_update [OF uniq])
    fix d o2 m2 d2
    assume "dwh_data ?info = Some d" "match_results st o2 = Some m2" "dwh_data m2 = Some d2"
    then have "d = r" "dwh_gp_order_id d2 \<in> used_dwh_ids st"
      using results_inv_used [OF inv] by auto
    then show "dwh_gp_order_id d \<noteq> dwh_gp_order_id d2" using gp hit(4) by auto
  qed
  show ?thesis using i u st' by auto
next
  case (miss s cross)
  let ?info = "\<lparr> matched = False, dwh_idx = None, dwh_data = None,
                mi_order_category = ''Not Matched'',
                mi_match_status = s, mi_match_confidence = confidence_map s,
                cross_midnight = cross,
                mi_net_sales_value = net_sales_value agg,
                mi_gross_order_value = gross_order_value agg,
                mi_unavailable_items_adjustment = unavailable_items_adjustment agg \<rparr>"
  have st': "st' = \<lparr> match_results = (match_results st)(a_order_number agg \<mapsto> ?info),
                      used_dwh_ids = used_dwh_ids st \<rparr>"
    using step match_step_unmatched [OF miss] by simp
  have ok: "info_ok D (used_dwh_ids st) ?info" by (simp add: info_ok_def)
  have i: "results_inv D st'"
    unfolding st' by (rule results_inv_update [OF inv _ ok]) auto
  have u: "results_unique st'"
    unfolding st' by (rule results_unique_update [OF uniq]) simp
  show ?thesis using i u st' by auto
qed

lemma match_loop_succeeds:
  assumes "lookup_sound D L"
  shows "\<exists>st'. match_loop L D T aggs st = Inr st'"
proof (induction aggs arbitrary: st)
  case Nil
  then show ?case by simp
next
  case (Cons agg aggs)
  from match_step_succeeds [OF assms, of T agg st]
  obtain st1 where "match_step L D T agg st = Inr st1" by blast
  then show ?case using Cons.IH [of st1] by simp
qed

lemma match_loop_inv:
  assumes "lookup_sound D L"
    and "match_loop L D T aggs st = Inr st'"
    and "results_inv D st" and "results_unique st"
  shows "results_inv D st' \<and> results_unique st'"
  using assms(2-)
proof (induction aggs arbitrary: st)
  case Nil
  then show ?case by simp
next
  case (Cons agg aggs)
  from match_step_succeeds [OF assms(1), of T agg st]
  obtain st1 where s1: "match_step L D T agg st = Inr st1" by blast
  then have rest: "match_loop L D T aggs st1 = Inr st'" using Cons.prems(1) by simp
  from match_step_inv [OF assms(1) s1 Cons.prems(2,3)]
  have "results_inv D st1" "results_unique st1" by auto
  from Cons.IH [OF rest this] show ?case .
qed

lemma initial_state_inv: "results_inv D initial_state \<and> results_unique initial_state"
  by (simp add: results_inv_def results_unique_def initial_state_def)

lemma run_matching_succeeds: "\<exists>st. run_matching dr_df dwh_df = Inr st"
  unfolding run_matching_def Let_def
  by (rule match_loop_succeeds [OF lookup_sound_build [OF distinct_dwh_completed]])

lemma run_matching_inv:
  assumes "run_matching dr_df dwh_df = Inr st"
  shows "results_inv (dwh_completed_of dwh_df) st \<and> results_unique st"
proof -
  have ls: "lookup_sound (dwh_completed_of dwh_df) (build_lookup (dwh_completed_of dwh_df) Map.empty)"
    by (rule lookup_sound_build [OF distinct_dwh_completed])
  show ?thesis
    using match_loop_inv [OF ls _ initial_state_inv [THEN conjunct1] initial_state_inv [THEN conjunct2]]
      assms unfolding run_matching_def Let_def by blast
qed

lemmas ex_defs = ex_dr_def ex_dwh_def mk_order_def mk_fee_def mk_dwh_def
lemmas run_defs = run_matching_def dwh_completed_of_def aggregate_order_values_def
  is_order_def is_fee_def fillna0_def sort_values_delivery_date_def date_le_def
  initial_state_def match_step_def resolve_order_def find_available_def available_for_def
  lookup_get_def make_cand_def strip_def is_space_def choose_candidate_def
  resolve_collision_by_timestamp_def resolve_collision_by_value_def loc_def confidence_map_def
  Let_def


text \<open>
  Claim C1. Every run of the match resolver ends without an error, and in its results no
  warehouse record is assigned to two orders: two different order numbers with accepted
  matches carry warehouse rows with different \<^verbatim>\<open>gp_order_id\<close> (and different index
  labels), each \<^verbatim>\<open>gp_order_id\<close> that was matched is in the used set, and the candidates a
  lookup offers, on the same day or the previous one, never have a \<^verbatim>\<open>gp_order_id\<close> of the
  used set.
\<close>

theorem reference_claimed_at_most_once:
  "\<exists>st. run_matching dr_df dwh_df = Inr st
     \<and> (\<forall>o1 o2 m1 m2.
           o1 \<noteq> o2 \<and> match_results st o1 = Some m1 \<and> matched m1
           \<and> match_results st o2 = Some m2 \<and> matched m2
           \<longrightarrow> (\<exists>d1 d2. dwh_data m1 = Some d1 \<and> dwh_data m2 = Some d2
                  \<and> dwh_gp_order_id d1 \<in> used_dwh_ids st
                  \<and> dwh_gp_order_id d1 \<noteq> dwh_gp_order_id d2
                  \<and> dwh_idx m1 \<noteq> dwh_idx m2))
     \<and> (\<forall>dwh_lookup used agg c.
           c \<in> set (fst (find_available dwh_lookup used agg)) \<longrightarrow> gp_order_id c \<notin> used)"
proof -
  obtain st where run: "run_matching dr_df dwh_df = Inr st"
    using run_matching_succeeds by blast
  let ?D = "dwh_completed_of dwh_df"
  from run_matching_inv [OF run] have inv: "results_inv ?D st" and uniq: "results_unique st"
    by auto
  have "\<exists>d1 d2. dwh_data m1 = Some d1 \<and> dwh_data m2 = Some d2
                  \<and> dwh_gp_order_id d1 \<in> used_dwh_ids st
                  \<and> dwh_gp_order_id d1 \<noteq> dwh_gp_order_id d2
                  \<and> dwh_idx m1 \<noteq> dwh_idx m2"
    if a: "o1 \<noteq> o2 \<and> match_results st o1 = Some m1 \<and> matched m1
           \<and> match_results st o2 = Some m2 \<and> matched m2" for o1 o2 m1 m2
  proof -
    have ok1: "info_ok ?D (used_dwh_ids st) m1" and ok2: "info_ok ?D (used_dwh_ids st) m2"
      using inv a unfolding results_inv_def by blast+
    from ok1 a obtain i1 d1 where 1: "dwh_idx m1 = Some i1" "dwh_data m1 = Some d1"
      "map_of ?D i1 = Some d1" "dwh_gp_order_id d1 \<in> used_dwh_ids st"
      unfolding info_ok_def by auto
    from ok2 a obtain i2 d2 where 2: "dwh_idx m2 = Some i2" "dwh_data m2 = Some d2"
      "map_of ?D i2 = Some d2"
      unfolding info_ok_def by auto
    have ne: "dwh_gp_order_id d1 \<noteq> dwh_gp_order_id d2"
      using uniq a 1(2) 2(2) unfolding results_unique_def by blast
    then have "i1 \<noteq> i2" using 1(3) 2(3) by auto
    then show ?thesis using 1 2 ne by simp
  qed
  moreover have "gp_order_id c \<notin> used"
    if "c \<in> set (fst (find_available L used agg))" for L used agg c
    using find_available_props [OF that] by simp
  ultimately show ?thesis using run by blast
qed

theorem reference_claimed_at_most_once_witness:
  "\<exists>st m1 m2 d1 d2. run_matching ex_dr ex_dwh = Inr st
     \<and> match_results st ''A'' = Some m1 \<and> matched m1 \<and> dwh_data m1 = Some d1
     \<and> match_results st ''B'' = Some m2 \<and> matched m2 \<and> dwh_data m2 = Some d2
     \<and> dwh_gp_order_id d1 = ''G1'' \<and> dwh_gp_order_id d2 = ''G2''
     \<and> dwh_gp_order_id d1 \<noteq> dwh_gp_order_id d2"
proof -
  from reference_claimed_at_most_once [of ex_dr ex_dwh]
  obtain st where run: "run_matching ex_dr ex_dwh = Inr st"
    and uniq: "\<And>o1 o2 m1 m2. o1 \<noteq> o2 \<and> match_results st o1 = Some m1 \<and> matched m1
           \<and> match_results st o2 = Some m2 \<and> matched m2
           \<Longrightarrow> (\<exists>d1 d2. dwh_data m1 = Some d1 \<and> dwh_data m2 = Some d2
                  \<and> dwh_gp_order_id d1 \<in> used_dwh_ids st
                  \<and> dwh_gp_order_id d1 \<noteq> dwh_gp_order_id d2
                  \<and> dwh_idx m1 \<noteq> dwh_idx m2)"
    by blast
  from run obtain m1 m2 where
    a: "match_results st ''A'' = Some m1" "matched m1"
       "map_option dwh_gp_order_id (dwh_data m1) = Some ''G1''"
    and b: "match_results st ''B'' = Some m2" "matched m2"
       "map_option dwh_gp_order_id (dwh_data m2) = Some ''G2''"
    by (auto simp add: ex_defs run_defs)
  have "''A'' \<noteq> ''B''" by simp
  with uniq [of "''A''" "''B''" m1 m2] a b
  obtain d1 d2 where "dwh_data m1 = Some d1" "dwh_data m2 = Some d2"
    "dwh_gp_order_id d1 \<noteq> dwh_gp_order_id d2" by blast
  then show ?thesis using run a b by auto
qed

section \<open>Propagation and the quality check: properties\<close>

lemma propagate_row_row [simp]: "row (propagate_row results r) = r"
  by (simp add: propagate_row_def split: option.splits)

lemma propagate_matched_category:
  assumes "\<And>info. results (order_number r) = Some info \<Longrightarrow> info_ok D U info"
  shows "is_matched_category (order_category (propagate_row results r))
         \<longleftrightarrow> is_order r \<and> (\<exists>info. results (order_number r) = Some info \<and> matched info)"
proof (cases "results (order_number r)")
  case None
  then show ?thesis by (simp add: propagate_row_def is_matched_category_def)
next
  case (Some info)
  from assms [OF Some] have ok: "info_ok D U info" .
  show ?thesis
  proof (cases "matched info")
    case True
    then have "is_matched_category (mi_order_category info)" using ok by (auto simp: info_ok_def)
    then show ?thesis using Some True by (simp add: propagate_row_def is_matched_category_def)
  next
    case False
    then show ?thesis using Some by (simp add: propagate_row_def is_matched_category_def)
  qed
qed

lemma propagate_matched_order:
  assumes "results (order_number r) = Some info" "matched info" "is_order r"
  shows "propagate_row results r =
     \<lparr> row = r,
       out_net_sales_value = Some (mi_net_sales_value info),
       out_gross_order_value = Some (mi_gross_order_value info),
       out_unavailable_items_adjustment = Some (mi_unavailable_items_adjustment info),
       out_dwh = dwh_data info,
       order_category = mi_order_category info,
       match_status = mi_match_status info,
       match_confidence = Some (mi_match_confidence info) \<rparr>"
  using assms by (simp add: propagate_row_def)

lemma propagate_linked:
  assumes "results (order_number r) = Some info" "matched info" "\<not> is_order r"
  shows "propagate_row results r =
     \<lparr> row = r,
       out_net_sales_value = Some (mi_net_sales_value info),
       out_gross_order_value = Some (mi_gross_order_value info),
       out_unavailable_items_adjustment = Some (mi_unavailable_items_adjustment info),
       out_dwh = dwh_data info,
       order_category = ''Linked to Order'',
       match_status = ''LINKED'',
       match_confidence = Some ''Inherited'' \<rparr>"
  using assms by (simp add: propagate_row_def)

lemma high_variance_iff:
  assumes "out_net_sales_value p = Some n" "out_dwh p = Some d"
  shows "high_variance p \<longleftrightarrow>
     is_matched_category (order_category p) \<and> review_due n (dwh_post_promo_sales_inc_vat d)"
proof (cases "0 < n")
  case True
  have "20 < \<bar>n - x\<bar> / n * 100 \<longleftrightarrow> 0.20 * n < \<bar>n - x\<bar>" for x
    using True by (simp add: pos_less_divide_eq field_simps)
  then show ?thesis
    using True assms by (simp add: high_variance_def variance_pct_def dwh_val_of_def fillna0_def
        review_due_def Let_def)
next
  case False
  then show ?thesis
    using assms by (simp add: high_variance_def variance_pct_def dwh_val_of_def fillna0_def
        review_due_def Let_def)
qed

lemma quality_check_map:
  assumes "\<And>r. r \<in> set df \<Longrightarrow> is_matched_category (order_category r) \<Longrightarrow> out_dwh r \<noteq> None"
  shows "quality_check df = map flag_review df"
proof (cases "has_dwh_columns df")
  case True
  then show ?thesis by (simp add: quality_check_def)
next
  case False
  then have "\<And>r. r \<in> set df \<Longrightarrow> \<not> high_variance r"
    using assms by (auto simp: has_dwh_columns_def list_ex_iff high_variance_def)
  then have "map flag_review df = df"
    by (simp add: map_idI flag_review_def)
  then show ?thesis using False by (simp add: quality_check_def)
qed

lemma flag_review_fields [simp]:
  "row (flag_review p) = row p"
  "out_net_sales_value (flag_review p) = out_net_sales_value p"
  "out_gross_order_value (flag_review p) = out_gross_order_value p"
  "out_unavailable_items_adjustment (flag_review p) = out_unavailable_items_adjustment p"
  "out_dwh (flag_review p) = out_dwh p"
  "order_category (flag_review p) = order_category p"
  "match_status (flag_review p) = match_status p"
  by (simp_all add: flag_review_def)

lemma matched_row_has_dwh:
  assumes inv: "results_inv D st"
    and cat: "is_matched_category (order_category (propagate_row (match_results st) r))"
  obtains info d where "match_results st (order_number r) = Some info" "matched info" "is_order r"
    "dwh_data info = Some d" "mi_match_confidence info = confidence_map (mi_match_status info)"
    "is_matched_category (mi_order_category info)"
proof -
  have ok: "\<And>info. match_results st (order_number r) = Some info \<Longrightarrow> info_ok D (used_dwh_ids st) info"
    using inv unfolding results_inv_def by blast
  from cat propagate_matched_category [of "match_results st" r D "used_dwh_ids st"] ok
  obtain info where i: "match_results st (order_number r) = Some info" "matched info" "is_order r"
    by blast
  from ok [OF i(1)] i(2) obtain d where "dwh_data info = Some d"
    "mi_match_confidence info = confidence_map (mi_match_status info)"
    "is_matched_category (mi_order_category info)"
    unfolding info_ok_def by auto
  then show ?thesis using that i by blast
qed

lemma match_deliveroo_orders_rows:
  assumes "filter is_order dr_df \<noteq> []" and run: "run_matching dr_df dwh_df = Inr st"
  shows "match_deliveroo_orders dr_df dwh_df =
     Inr (map (\<lambda>r. flag_review (propagate_row (match_results st) r)) dr_df)"
proof -
  from run_matching_inv [OF run] have inv: "results_inv (dwh_completed_of dwh_df) st" by simp
  let ?df = "map (propagate_row (match_results st)) dr_df"
  have "out_dwh p \<noteq> None" if "p \<in> set ?df" "is_matched_category (order_category p)" for p
  proof -
    from that obtain r where p: "p = propagate_row (match_results st) r" by auto
    from matched_row_has_dwh [OF inv that(2) [unfolded p]]
    obtain info d where "match_results st (order_number r) = Some info" "matched info" "is_order r"
      "dwh_data info = Some d" by metis
    then show ?thesis unfolding p by (simp add: propagate_matched_order)
  qed
  from quality_check_map [of ?df, OF this]
  show ?thesis using assms by (simp add: match_deliveroo_orders_def comp_def)
qed

text \<open>
  Claim C3, as amended. For a table with order rows, the quality check changes nothing but
  the confidence of matched rows (category \<^verbatim>\<open>Matched\<close> or \<^verbatim>\<open>Matched (Grouped)\<close>). Such a
  row has the confidence of the stage that matched it, with \<^verbatim>\<open> - Review\<close> appended exactly
  when the order's net value is positive and the absolute difference between it and the
  matched warehouse value exceeds 20% of the order's net value; every other row is as the
  propagation step made it.
\<close>

theorem review_flag_on_net_value:
  assumes "filter is_order dr_df \<noteq> []"
  shows "\<exists>st out. run_matching dr_df dwh_df = Inr st
      \<and> match_deliveroo_orders dr_df dwh_df = Inr out \<and> length out = length dr_df
      \<and> (\<forall>i < length dr_df.
            let p = propagate_row (match_results st) (dr_df ! i); q = out ! i
            in if is_matched_category (order_category p)
               then (\<exists>info d. match_results st (order_number (dr_df ! i)) = Some info
                       \<and> matched info \<and> dwh_data info = Some d
                       \<and> mi_match_confidence info = confidence_map (mi_match_status info)
                       \<and> q = p\<lparr>match_confidence :=
                               Some (if review_due (mi_net_sales_value info)
                                          (dwh_post_promo_sales_inc_vat d)
                                     then mi_match_confidence info @ '' - Review''
                                     else mi_match_confidence info)\<rparr>)
               else q = p)"
proof -
  obtain st where run: "run_matching dr_df dwh_df = Inr st"
    using run_matching_succeeds by blast
  from run_matching_inv [OF run] have inv: "results_inv (dwh_completed_of dwh_df) st" by simp
  let ?g = "\<lambda>r. flag_review (propagate_row (match_results st) r)"
  let ?out = "map ?g dr_df"
  have out: "match_deliveroo_orders dr_df dwh_df = Inr ?out"
    by (rule match_deliveroo_orders_rows [OF assms run])
  have row_i: "let p = propagate_row (match_results st) (dr_df ! i); q = ?out ! i
            in if is_matched_category (order_category p)
               then (\<exists>info d. match_results st (order_number (dr_df ! i)) = Some info
                       \<and> matched info \<and> dwh_data info = Some d
                       \<and> mi_match_confidence info = confidence_map (mi_match_status info)
                       \<and> q = p\<lparr>match_confidence :=
                               Some (if review_due (mi_net_sales_value info)
                                          (dwh_post_promo_sales_inc_vat d)
                                     then mi_match_confidence info @ '' - Review''
                                     else mi_match_confidence info)\<rparr>)
               else q = p" if i: "i < length dr_df" for i
  proof -
    let ?r = "dr_df ! i"
    let ?p = "propagate_row (match_results st) ?r"
    have q: "?out ! i = ?g ?r" using i by simp
    show ?thesis
    proof (cases "is_matched_category (order_category ?p)")
      case True
      from matched_row_has_dwh [OF inv True]
      obtain info d where info: "match_results st (order_number ?r) = Some info" "matched info"
        "is_order ?r" "dwh_data info = Some d"
        "mi_match_confidence info = confidence_map (mi_match_status info)"
        by metis
      have p: "?p = \<lparr> row = ?r,
         out_net_sales_value = Some (mi_net_sales_value info),
         out_gross_order_value = Some (mi_gross_order_value info),
         out_unavailable_items_adjustment = Some (mi_unavailable_items_adjustment info),
         out_dwh = dwh_data info,
         order_category = mi_order_category info,
         match_status = mi_match_status info,
         match_confidence = Some (mi_match_confidence info) \<rparr>"
        using info(1,2,3) by (simp add: propagate_matched_order)
      have hv: "high_variance ?p \<longleftrightarrow> review_due (mi_net_sales_value info) (dwh_post_promo_sales_inc_vat d)"
        using high_variance_iff [of ?p "mi_net_sales_value info" d] True info(4) p by simp
      have "?g ?r = ?p\<lparr>match_confidence :=
                               Some (if review_due (mi_net_sales_value info)
                                          (dwh_post_promo_sales_inc_vat d)
                                     then mi_match_confidence info @ '' - Review''
                                     else mi_match_confidence info)\<rparr>"
        unfolding flag_review_def hv using p by simp
      then have qeq: "?out ! i = ?p\<lparr>match_confidence :=
                               Some (if review_due (mi_net_sales_value info)
                                          (dwh_post_promo_sales_inc_vat d)
                                     then mi_match_confidence info @ '' - Review''
                                     else mi_match_confidence info)\<rparr>"
        using q by (simp only:)
      have "\<exists>info d. match_results st (order_number ?r) = Some info
                       \<and> matched info \<and> dwh_data info = Some d
                       \<and> mi_match_confidence info = confidence_map (mi_match_status info)
                       \<and> ?out ! i = ?p\<lparr>match_confidence :=
                               Some (if review_due (mi_net_sales_value info)
                                          (dwh_post_promo_sales_inc_vat d)
                                     then mi_match_confidence info @ '' - Review''
                                     else mi_match_confidence info)\<rparr>"
        using info(1,2,4,5) qeq by blast
      then show ?thesis using True by (simp only: Let_def if_True)
    next
      case False
      then have "\<not> high_variance ?p" by (simp add: high_variance_def)
      then have "?g ?r = ?p" by (simp add: flag_review_def)
      then have "?out ! i = ?p" using q by (simp only:)
      then show ?thesis using False by (simp only: Let_def if_False)
    qed
  qed
  show ?thesis using run out row_i by (intro exI [of _ st] exI [of _ ?out]) simp
qed

lemmas out_defs = match_deliveroo_orders_def propagate_row_def quality_check_def flag_review_def
  has_dwh_columns_def high_variance_def variance_pct_def dwh_val_of_def is_matched_category_def
  no_orders_row_def

text \<open>
  Claim C3 as stated fails: the difference of 25 does not exceed 20% of the warehouse value
  125, yet the row is flagged, because 25 exceeds 20% of the order's net value 100.
\<close>

theorem review_flag_counterexample:
  "match_deliveroo_orders review_dr review_dwh =
     Inr [\<lparr> row = mk_order ''A'' ''1234'' ''StoreA'' 100 8640600 100,
            out_net_sales_value = Some 100,
            out_gross_order_value = Some 100,
            out_unavailable_items_adjustment = Some 0,
            out_dwh = Some (mk_dwh ''G1'' ''1234'' ''StoreA'' 100 125 8640000 8640900),
            order_category = ''Matched'',
            match_status = ''MATCHED'',
            match_confidence = Some ''High - Review'' \<rparr>]
   \<and> \<not> (0.20 * (125 :: real) < \<bar>100 - 125\<bar>)"
  by (simp add: review_dr_def review_dwh_def ex_defs run_defs out_defs)

theorem review_flag_on_net_value_witness:
  "filter is_order review_dr \<noteq> []
   \<and> (\<exists>out. match_deliveroo_orders review_dr review_dwh = Inr out
          \<and> map match_confidence out = [Some ''High - Review''])"
proof -
  have h: "filter is_order review_dr \<noteq> []"
    by (simp add: review_dr_def mk_order_def is_order_def)
  from review_flag_on_net_value [OF h, of review_dwh]
  obtain st out where run: "run_matching review_dr review_dwh = Inr st"
    and out: "match_deliveroo_orders review_dr review_dwh = Inr out"
    and len: "length out = length review_dr"
    and rows: "\<forall>i < length review_dr.
            let p = propagate_row (match_results st) (review_dr ! i); q = out ! i
            in if is_matched_category (order_category p)
               then (\<exists>info d. match_results st (order_number (review_dr ! i)) = Some info
                       \<and> matched info \<and> dwh_data info = Some d
                       \<and> mi_match_confidence info = confidence_map (mi_match_status info)
                       \<and> q = p\<lparr>match_confidence :=
                               Some (if review_due (mi_net_sales_value info)
                                          (dwh_post_promo_sales_inc_vat d)
                                     then mi_match_confidence info @ '' - Review''
                                     else mi_match_confidence info)\<rparr>)
               else q = p"
    by blast
  from run obtain info where
    a: "match_results st ''A'' = Some info" "matched info" "mi_net_sales_value info = 100"
       "map_option dwh_post_promo_sales_inc_vat (dwh_data info) = Some 125"
       "mi_match_status info = ''MATCHED''" "mi_order_category info = ''Matched''"
    by (auto simp add: review_dr_def review_dwh_def ex_defs run_defs)
  have r0: "review_dr ! 0 = mk_order ''A'' ''1234'' ''StoreA'' 100 8640600 100"
    by (simp add: review_dr_def)
  have on: "order_number (review_dr ! 0) = ''A''" by (simp add: r0 mk_order_def)
  have cat: "is_matched_category (order_category (propagate_row (match_results st) (review_dr ! 0)))"
    using a by (simp add: propagate_row_def on is_matched_category_def r0 mk_order_def is_order_def)
  have "0 < length review_dr" by (simp add: review_dr_def)
  with rows have "let p = propagate_row (match_results st) (review_dr ! 0); q = out ! 0
            in if is_matched_category (order_category p)
               then (\<exists>info d. match_results st (order_number (review_dr ! 0)) = Some info
                       \<and> matched info \<and> dwh_data info = Some d
                       \<and> mi_match_confidence info = confidence_map (mi_match_status info)
                       \<and> q = p\<lparr>match_confidence :=
                               Some (if review_due (mi_net_sales_value info)
                                          (dwh_post_promo_sales_inc_vat d)
                                     then mi_match_confidence info @ '' - Review''
                                     else mi_match_confidence info)\<rparr>)
               else q = p"
    by blast
  with cat on obtain info' d where
    b: "match_results st ''A'' = Some info'" "dwh_data info' = Some d"
       "mi_match_confidence info' = confidence_map (mi_match_status info')"
       "out ! 0 = (propagate_row (match_results st) (review_dr ! 0))\<lparr>match_confidence :=
                               Some (if review_due (mi_net_sales_value info')
                                          (dwh_post_promo_sales_inc_vat d)
                                     then mi_match_confidence info' @ '' - Review''
                                     else mi_match_confidence info')\<rparr>"
    by (auto simp: Let_def)
  have eq: "info' = info" using a b by simp
  have due: "review_due (mi_net_sales_value info') (dwh_post_promo_sales_inc_vat d)"
    using a b eq by (simp add: review_due_def)
  have "match_confidence (out ! 0) = Some ''High - Review''"
    using b due a eq by (simp add: confidence_map_def)
  moreover have "length out = 1" using len by (simp add: review_dr_def)
  ultimately have mc: "map match_confidence out = [Some ''High - Review'']"
    by (cases out) auto
  show ?thesis
  proof (intro conjI exI)
    show "filter is_order review_dr \<noteq> []" by (rule h)
    show "match_deliveroo_orders review_dr review_dwh = Inr out" by (rule out)
    show "map match_confidence out = [Some ''High - Review'']" by (rule mc)
  qed
qed

text \<open>
  Claim C9. For a table without order rows, aggregation returns the empty table, and the
  matching step returns normally, with every row annotated \<^verbatim>\<open>No Orders\<close> and status
  \<^verbatim>\<open>N/A\<close>; the variance step that follows returns normally as well.
\<close>

theorem empty_order_set_no_orders:
  assumes "filter is_order dr_df = []"
  shows "aggregate_order_values dr_df = []
     \<and> match_deliveroo_orders dr_df dwh_df = Inr (map no_orders_row dr_df)
     \<and> (\<forall>r \<in> set dr_df. order_category (no_orders_row r) = ''No Orders''
                         \<and> match_status (no_orders_row r) = ''N/A'')
     \<and> reconcile dr_df dwh_df =
         Inr (map (\<lambda>r. \<lparr> base = no_orders_row r, amount_variance = 0,
                         matched_amount = ''No DWH Value'', variance_explanation = ''N/A'' \<rparr>) dr_df)"
proof -
  have agg: "aggregate_order_values dr_df = []"
    using assms by (simp add: aggregate_order_values_def)
  have m: "match_deliveroo_orders dr_df dwh_df = Inr (map no_orders_row dr_df)"
    using assms by (simp add: match_deliveroo_orders_def)
  have nocol: "\<not> has_dwh_columns (map no_orders_row dr_df)"
    by (simp add: has_dwh_columns_def list_ex_iff no_orders_row_def)
  have "calculate_variances (map no_orders_row dr_df) =
      map (\<lambda>r. \<lparr> base = no_orders_row r, amount_variance = 0,
                         matched_amount = ''No DWH Value'', variance_explanation = ''N/A'' \<rparr>) dr_df"
    using nocol
    by (simp add: calculate_variances_def calculate_variance_row_def Let_def comp_def
        no_orders_row_def is_matched_category_def)
  then have r: "reconcile dr_df dwh_df =
         Inr (map (\<lambda>r. \<lparr> base = no_orders_row r, amount_variance = 0,
                         matched_amount = ''No DWH Value'', variance_explanation = ''N/A'' \<rparr>) dr_df)"
    using m by (simp add: reconcile_def)
  show ?thesis using agg m r by (simp add: no_orders_row_def)
qed

theorem empty_order_set_no_orders_witness:
  "filter is_order fees_only_dr = []
   \<and> aggregate_order_values fees_only_dr = []
   \<and> match_deliveroo_orders fees_only_dr review_dwh
       = Inr [no_orders_row (mk_fee ''A'' ''1234'' ''StoreA'' 100 8640600 (- 2))]"
proof -
  have h: "filter is_order fees_only_dr = []"
    by (simp add: fees_only_dr_def mk_fee_def is_order_def)
  from empty_order_set_no_orders [OF h, of review_dwh] h show ?thesis
    by (simp add: fees_only_dr_def)
qed

section \<open>Variance calculation: properties\<close>

lemmas var_defs = reconcile_def calculate_variances_def calculate_variance_row_def
  has_net_column_def variance_of_def classify_def round2_def round_half_even_def

lemma reconcile_no_orders:
  assumes "filter is_order dr_df = []"
  shows "reconcile dr_df dwh_df =
         Inr (map (\<lambda>r. \<lparr> base = no_orders_row r, amount_variance = 0,
                         matched_amount = ''No DWH Value'', variance_explanation = ''N/A'' \<rparr>) dr_df)"
proof -
  have m: "match_deliveroo_orders dr_df dwh_df = Inr (map no_orders_row dr_df)"
    using assms by (simp add: match_deliveroo_orders_def)
  have nocol: "\<not> has_dwh_columns (map no_orders_row dr_df)"
    by (simp add: has_dwh_columns_def list_ex_iff no_orders_row_def)
  have "calculate_variances (map no_orders_row dr_df) =
      map (\<lambda>r. \<lparr> base = no_orders_row r, amount_variance = 0,
                         matched_amount = ''No DWH Value'', variance_explanation = ''N/A'' \<rparr>) dr_df"
    using nocol
    by (simp add: calculate_variances_def calculate_variance_row_def Let_def comp_def
        no_orders_row_def is_matched_category_def)
  then show ?thesis using m by (simp add: reconcile_def)
qed

lemma reconcile_rows:
  assumes "filter is_order dr_df \<noteq> []" and "run_matching dr_df dwh_df = Inr st"
  shows "reconcile dr_df dwh_df =
     Inr (map (\<lambda>r. calculate_variance_row
                      (has_dwh_columns (map (\<lambda>r. flag_review (propagate_row (match_results st) r)) dr_df)
                       \<and> has_net_column (map (\<lambda>r. flag_review (propagate_row (match_results st) r)) dr_df))
                      (flag_review (propagate_row (match_results st) r))) dr_df)"
  using match_deliveroo_orders_rows [OF assms]
  by (simp add: reconcile_def calculate_variances_def comp_def)

lemma columns_present:
  assumes "q \<in> set df" "out_dwh q \<noteq> None" "out_net_sales_value q \<noteq> None"
  shows "has_dwh_columns df \<and> has_net_column df"
  using assms by (auto simp: has_dwh_columns_def has_net_column_def list_ex_iff)

lemma calculate_variance_row_matched:
  assumes "is_matched_category (order_category q)"
  shows "calculate_variance_row True q =
     \<lparr> base = q, amount_variance = variance_of q,
       matched_amount = fst (classify \<bar>variance_of q\<bar>),
       variance_explanation = snd (classify \<bar>variance_of q\<bar>) \<rparr>"
proof -
  have "order_category q \<noteq> ''Linked to Order''"
    using assms by (auto simp: is_matched_category_def)
  then show ?thesis using assms by (simp add: calculate_variance_row_def Let_def)
qed

lemma calculate_variance_row_linked:
  assumes "order_category q = ''Linked to Order''"
  shows "calculate_variance_row True q =
     \<lparr> base = q, amount_variance = variance_of q,
       matched_amount = ''Linked'', variance_explanation = ''See Parent Order'' \<rparr>"
  using assms by (simp add: calculate_variance_row_def Let_def)

lemma classify_explanation:
  "snd (classify a) =
     (if a < 0.02 then ''Exact Match''
      else if a < 0.10 then ''Rounding''
      else if a < 1.00 then ''Minor Variance''
      else ''Unexplained Variance'')"
  by (simp add: classify_def)

lemma classify_monotone:
  assumes "x \<le> y"
  shows "severity (snd (classify x)) \<le> severity (snd (classify y))"
proof -
  have s: "severity (snd (classify a)) =
     (if a < 0.02 then 0 else if a < 0.10 then 1 else if a < 1.00 then 2 else 3)" for a
    by (simp add: classify_def severity_def)
  show ?thesis unfolding s using assms by auto
qed

lemma round_half_even_of_int: "round_half_even (of_int k) = k"
  by (simp add: round_half_even_def)

lemma round2_pennies: "round2 (of_int k / 100) = of_int k / 100"
  by (simp add: round2_def round_half_even_of_int)

lemma variance_of_pennies:
  "round2 (round2 (of_int a / 100) - round2 (of_int b / 100)) = of_int a / 100 - of_int b / 100"
proof -
  have "(of_int a / 100 - of_int b / 100 :: real) = of_int (a - b) / 100"
    by (simp add: diff_divide_distrib)
  then show ?thesis by (simp only: round2_pennies)
qed

lemma matched_var_row:
  assumes ne: "filter is_order dr_df \<noteq> []" and run: "run_matching dr_df dwh_df = Inr st"
    and r: "r \<in> set dr_df"
    and cat: "is_matched_category (order_category (propagate_row (match_results st) r))"
  obtains info d where "match_results st (order_number r) = Some info" "matched info" "is_order r"
    "dwh_data info = Some d"
    "out_net_sales_value (flag_review (propagate_row (match_results st) r))
       = Some (mi_net_sales_value info)"
    "out_dwh (flag_review (propagate_row (match_results st) r)) = Some d"
    "calculate_variance_row
       (has_dwh_columns (map (\<lambda>r. flag_review (propagate_row (match_results st) r)) dr_df)
        \<and> has_net_column (map (\<lambda>r. flag_review (propagate_row (match_results st) r)) dr_df))
       (flag_review (propagate_row (match_results st) r))
     = \<lparr> base = flag_review (propagate_row (match_results st) r),
         amount_variance =
           round2 (round2 (mi_net_sales_value info) - round2 (dwh_post_promo_sales_inc_vat d)),
         matched_amount =
           fst (classify \<bar>round2 (round2 (mi_net_sales_value info)
                              - round2 (dwh_post_promo_sales_inc_vat d))\<bar>),
         variance_explanation =
           snd (classify \<bar>round2 (round2 (mi_net_sales_value info)
                              - round2 (dwh_post_promo_sales_inc_vat d))\<bar>) \<rparr>"
proof -
  let ?q = "\<lambda>r. flag_review (propagate_row (match_results st) r)"
  from run_matching_inv [OF run] have inv: "results_inv (dwh_completed_of dwh_df) st" by simp
  from matched_row_has_dwh [OF inv cat]
  obtain info d where info: "match_results st (order_number r) = Some info" "matched info"
    "is_order r" "dwh_data info = Some d"
    by metis
  have p: "propagate_row (match_results st) r = \<lparr> row = r,
         out_net_sales_value = Some (mi_net_sales_value info),
         out_gross_order_value = Some (mi_gross_order_value info),
         out_unavailable_items_adjustment = Some (mi_unavailable_items_adjustment info),
         out_dwh = dwh_data info,
         order_category = mi_order_category info,
         match_status = mi_match_status info,
         match_confidence = Some (mi_match_confidence info) \<rparr>"
    using info(1,2,3) by (simp add: propagate_matched_order)
  have net: "out_net_sales_value (?q r) = Some (mi_net_sales_value info)"
    and dwh: "out_dwh (?q r) = Some d" and qcat: "is_matched_category (order_category (?q r))"
    using p info(4) cat by simp_all
  have "?q r \<in> set (map ?q dr_df)" using r by simp
  from columns_present [OF this] net dwh
  have cols: "(has_dwh_columns (map ?q dr_df) \<and> has_net_column (map ?q dr_df)) = True" by simp
  have v: "variance_of (?q r)
           = round2 (round2 (mi_net_sales_value info) - round2 (dwh_post_promo_sales_inc_vat d))"
    using net dwh by (simp add: variance_of_def fillna0_def dwh_val_of_def)
  have "calculate_variance_row
       (has_dwh_columns (map ?q dr_df) \<and> has_net_column (map ?q dr_df)) (?q r)
     = \<lparr> base = ?q r,
         amount_variance =
           round2 (round2 (mi_net_sales_value info) - round2 (dwh_post_promo_sales_inc_vat d)),
         matched_amount =
           fst (classify \<bar>round2 (round2 (mi_net_sales_value info)
                              - round2 (dwh_post_promo_sales_inc_vat d))\<bar>),
         variance_explanation =
           snd (classify \<bar>round2 (round2 (mi_net_sales_value info)
                              - round2 (dwh_post_promo_sales_inc_vat d))\<bar>) \<rparr>"
    using calculate_variance_row_matched [OF qcat] unfolding cols v .
  then show ?thesis using that [OF info net dwh] by simp
qed

text \<open>
  Claim C7, as amended. For every matched row (category \<^verbatim>\<open>Matched\<close> or
  \<^verbatim>\<open>Matched (Grouped)\<close>) of the reconciliation output, the variance is the order's net value
  rounded to two decimals minus the matched warehouse value rounded to two decimals (and
  rounded again), which for values given to the penny is the net value minus the warehouse
  value; the classification depends on the absolute variance alone: below 0.02 it is
  \<^verbatim>\<open>Exact Match\<close>, from 0.02 and below 0.10 \<^verbatim>\<open>Rounding\<close>, from 0.10 and below 1.00
  \<^verbatim>\<open>Minor Variance\<close>, from 1.00 \<^verbatim>\<open>Unexplained Variance\<close>; and a larger absolute variance
  never gives a less severe class. Net value 100.00 against 100.03 gives the variance
  -0.03, classified \<^verbatim>\<open>Rounding\<close>: the instance that follows.
\<close>

theorem variance_classification:
  "\<exists>out. reconcile dr_df dwh_df = Inr out \<and> length out = length dr_df
     \<and> (\<forall>v \<in> set out. is_matched_category (order_category (base v)) \<longrightarrow>
          (\<exists>n d. out_net_sales_value (base v) = Some n \<and> out_dwh (base v) = Some d
             \<and> amount_variance v = round2 (round2 n - round2 (dwh_post_promo_sales_inc_vat d))
             \<and> variance_explanation v =
                 (if \<bar>amount_variance v\<bar> < 0.02 then ''Exact Match''
                  else if \<bar>amount_variance v\<bar> < 0.10 then ''Rounding''
                  else if \<bar>amount_variance v\<bar> < 1.00 then ''Minor Variance''
                  else ''Unexplained Variance'')))
     \<and> (\<forall>a b. round2 (round2 (of_int a / 100) - round2 (of_int b / 100))
                = of_int a / 100 - of_int b / 100)
     \<and> (\<forall>x y. x \<le> y \<longrightarrow> severity (snd (classify x)) \<le> severity (snd (classify y)))"
proof -
  have rows: "\<exists>out. reconcile dr_df dwh_df = Inr out \<and> length out = length dr_df
     \<and> (\<forall>v \<in> set out. is_matched_category (order_category (base v)) \<longrightarrow>
          (\<exists>n d. out_net_sales_value (base v) = Some n \<and> out_dwh (base v) = Some d
             \<and> amount_variance v = round2 (round2 n - round2 (dwh_post_promo_sales_inc_vat d))
             \<and> variance_explanation v =
                 (if \<bar>amount_variance v\<bar> < 0.02 then ''Exact Match''
                  else if \<bar>amount_variance v\<bar> < 0.10 then ''Rounding''
                  else if \<bar>amount_variance v\<bar> < 1.00 then ''Minor Variance''
                  else ''Unexplained Variance'')))"
  proof (cases "filter is_order dr_df = []")
    case True
    let ?out = "map (\<lambda>r. \<lparr> base = no_orders_row r, amount_variance = 0,
                         matched_amount = ''No DWH Value'', variance_explanation = ''N/A'' \<rparr>) dr_df"
    have "\<not> is_matched_category (order_category (base v))" if "v \<in> set ?out" for v
      using that by (auto simp: no_orders_row_def is_matched_category_def)
    then show ?thesis using reconcile_no_orders [OF True, of dwh_df]
      by (intro exI [of _ ?out]) simp
  next
    case False
    obtain st where run: "run_matching dr_df dwh_df = Inr st"
      using run_matching_succeeds by blast
    let ?q = "\<lambda>r. flag_review (propagate_row (match_results st) r)"
    let ?cols = "has_dwh_columns (map ?q dr_df) \<and> has_net_column (map ?q dr_df)"
    let ?out = "map (\<lambda>r. calculate_variance_row ?cols (?q r)) dr_df"
    have rec: "reconcile dr_df dwh_df = Inr ?out" by (rule reconcile_rows [OF False run])
    have "\<exists>n d. out_net_sales_value (base v) = Some n \<and> out_dwh (base v) = Some d
             \<and> amount_variance v = round2 (round2 n - round2 (dwh_post_promo_sales_inc_vat d))
             \<and> variance_explanation v =
                 (if \<bar>amount_variance v\<bar> < 0.02 then ''Exact Match''
                  else if \<bar>amount_variance v\<bar> < 0.10 then ''Rounding''
                  else if \<bar>amount_variance v\<bar> < 1.00 then ''Minor Variance''
                  else ''Unexplained Variance'')"
      if v: "v \<in> set ?out" and cat: "is_matched_category (order_category (base v))" for v
    proof -
      from v obtain r where r: "r \<in> set dr_df" and veq: "v = calculate_variance_row ?cols (?q r)"
        by auto
      have b: "base v = ?q r" unfolding veq by (simp add: calculate_variance_row_def Let_def)
      have pcat: "is_matched_category (order_category (propagate_row (match_results st) r))"
        using cat b by simp
      from False run r pcat obtain info d where
        "match_results st (order_number r) = Some info" "matched info" "is_order r"
        "dwh_data info = Some d"
        and n: "out_net_sales_value (?q r) = Some (mi_net_sales_value info)"
        and d: "out_dwh (?q r) = Some d"
        and row: "calculate_variance_row ?cols (?q r)
              = \<lparr> base = ?q r,
                  amount_variance =
                    round2 (round2 (mi_net_sales_value info)
                            - round2 (dwh_post_promo_sales_inc_vat d)),
                  matched_amount =
                    fst (classify \<bar>round2 (round2 (mi_net_sales_value info)
                                       - round2 (dwh_post_promo_sales_inc_vat d))\<bar>),
                  variance_explanation =
                    snd (classify \<bar>round2 (round2 (mi_net_sales_value info)
                                       - round2 (dwh_post_promo_sales_inc_vat d))\<bar>) \<rparr>"
        by (rule matched_var_row)
      have av: "amount_variance v = round2 (round2 (mi_net_sales_value info)
                            - round2 (dwh_post_promo_sales_inc_vat d))"
        and ve: "variance_explanation v = snd (classify \<bar>amount_variance v\<bar>)"
        unfolding veq row by simp_all
      show ?thesis
        using n d av ve unfolding b classify_explanation by blast
    qed
    then show ?thesis using rec by (intro exI [of _ ?out]) simp
  qed
  show ?thesis
    using rows variance_of_pennies classify_monotone by blast
qed

theorem variance_classification_witness:
  "\<exists>out. reconcile rounding_dr rounding_dwh = Inr out
      \<and> map amount_variance out = [- 0.03]
      \<and> map variance_explanation out = [''Rounding'']"
proof -
  from variance_classification [of rounding_dr rounding_dwh]
  obtain out where rec: "reconcile rounding_dr rounding_dwh = Inr out"
    and len: "length out = length rounding_dr"
    and rows: "\<And>v. v \<in> set out \<Longrightarrow> is_matched_category (order_category (base v)) \<Longrightarrow>
          (\<exists>n d. out_net_sales_value (base v) = Some n \<and> out_dwh (base v) = Some d
             \<and> amount_variance v = round2 (round2 n - round2 (dwh_post_promo_sales_inc_vat d))
             \<and> variance_explanation v =
                 (if \<bar>amount_variance v\<bar> < 0.02 then ''Exact Match''
                  else if \<bar>amount_variance v\<bar> < 0.10 then ''Rounding''
                  else if \<bar>amount_variance v\<bar> < 1.00 then ''Minor Variance''
                  else ''Unexplained Variance''))"
    by blast
  from len obtain v where out: "out = [v]"
    by (cases out) (auto simp: rounding_dr_def)
  from rec have b: "order_category (base v) = ''Matched''"
    "out_net_sales_value (base v) = Some 100" 
    "map_option dwh_post_promo_sales_inc_vat (out_dwh (base v)) = Some 100.03"
    unfolding out
    by (auto simp add: rounding_dr_def rounding_dwh_def ex_defs run_defs out_defs var_defs)
  have "v \<in> set out" "is_matched_category (order_category (base v))"
    using out b by (simp_all add: is_matched_category_def)
  from rows [OF this] obtain n d where
    nd: "out_net_sales_value (base v) = Some n" "out_dwh (base v) = Some d"
    and av: "amount_variance v = round2 (round2 n - round2 (dwh_post_promo_sales_inc_vat d))"
    and ve: "variance_explanation v =
                 (if \<bar>amount_variance v\<bar> < 0.02 then ''Exact Match''
                  else if \<bar>amount_variance v\<bar> < 0.10 then ''Rounding''
                  else if \<bar>amount_variance v\<bar> < 1.00 then ''Minor Variance''
                  else ''Unexplained Variance'')"
    by (elim exE conjE)
  have n: "n = 100" using b(2) nd(1) by simp
  have d: "dwh_post_promo_sales_inc_vat d = 100.03" using b(3) nd(2) by simp
  have a: "amount_variance v = - 0.03"
    unfolding av n d by (simp add: round2_def round_half_even_def)
  have e: "variance_explanation v = ''Rounding''"
    unfolding ve a by simp
  show ?thesis
  proof (intro exI conjI)
    show "reconcile rounding_dr rounding_dwh = Inr out" by (rule rec)
    show "map amount_variance out = [- 0.03]" using out a by simp
    show "map variance_explanation out = [''Rounding'']" using out e by simp
  qed
qed

text \<open>
  Claim C7 as stated fails. Net value 100.00 against the warehouse value 100.03 gives the
  variance -0.03, not 0.03. And the variance is not the difference rounded to two
  decimals: for the net value 10.014 and the warehouse value 9.996 the difference 0.018
  rounds to 0.02, which would be \<^verbatim>\<open>Rounding\<close>, while the code subtracts the rounded values
  10.01 and 10.00 and reports 0.01, \<^verbatim>\<open>Exact Match\<close>.
\<close>

theorem variance_counterexample:
  "reconcile rounding_dr rounding_dwh =
     Inr [\<lparr> base = \<lparr> row = mk_order ''A'' ''1234'' ''StoreA'' 100 8640600 100.00,
                     out_net_sales_value = Some 100.00,
                     out_gross_order_value = Some 100.00,
                     out_unavailable_items_adjustment = Some 0,
                     out_dwh = Some (mk_dwh ''G1'' ''1234'' ''StoreA'' 100 100.03 8640000 8640900),
                     order_category = ''Matched'',
                     match_status = ''MATCHED'',
                     match_confidence = Some ''High'' \<rparr>,
            amount_variance = - 0.03,
            matched_amount = ''Exact Match'',
            variance_explanation = ''Rounding'' \<rparr>]
   \<and> reconcile subpenny_dr subpenny_dwh =
     Inr [\<lparr> base = \<lparr> row = mk_order ''A'' ''1234'' ''StoreA'' 100 8640600 10.014,
                     out_net_sales_value = Some 10.014,
                     out_gross_order_value = Some 10.014,
                     out_unavailable_items_adjustment = Some 0,
                     out_dwh = Some (mk_dwh ''G1'' ''1234'' ''StoreA'' 100 9.996 8640000 8640900),
                     order_category = ''Matched'',
                     match_status = ''MATCHED'',
                     match_confidence = Some ''High'' \<rparr>,
            amount_variance = 0.01,
            matched_amount = ''Exact Match'',
            variance_explanation = ''Exact Match'' \<rparr>]
   \<and> round2 (10.014 - 9.996) = 0.02
   \<and> snd (classify \<bar>round2 (10.014 - 9.996)\<bar>) = ''Rounding''"
  by (simp add: rounding_dr_def rounding_dwh_def subpenny_dr_def subpenny_dwh_def
      ex_defs run_defs out_defs var_defs del: not_None_eq)

section \<open>Linked rows\<close>

lemma run_matching_no_orders:
  assumes "filter is_order dr_df = []"
  shows "run_matching dr_df dwh_df = Inr initial_state"
  using assms
  by (simp add: run_matching_def aggregate_order_values_def sort_values_delivery_date_def)

lemma linked_var_row:
  assumes ne: "filter is_order dr_df \<noteq> []" and run: "run_matching dr_df dwh_df = Inr st"
    and r: "r \<in> set dr_df" and no: "\<not> is_order r"
    and info: "match_results st (order_number r) = Some info" "matched info"
  obtains d where "dwh_data info = Some d"
    "calculate_variance_row
       (has_dwh_columns (map (\<lambda>r. flag_review (propagate_row (match_results st) r)) dr_df)
        \<and> has_net_column (map (\<lambda>r. flag_review (propagate_row (match_results st) r)) dr_df))
       (flag_review (propagate_row (match_results st) r))
     = \<lparr> base = \<lparr> row = r,
                  out_net_sales_value = Some (mi_net_sales_value info),
                  out_gross_order_value = Some (mi_gross_order_value info),
                  out_unavailable_items_adjustment = Some (mi_unavailable_items_adjustment info),
                  out_dwh = Some d,
                  order_category = ''Linked to Order'',
                  match_status = ''LINKED'',
                  match_confidence = Some ''Inherited'' \<rparr>,
         amount_variance =
           round2 (round2 (mi_net_sales_value info) - round2 (dwh_post_promo_sales_inc_vat d)),
         matched_amount = ''Linked'',
         variance_explanation = ''See Parent Order'' \<rparr>"
proof -
  let ?q = "\<lambda>r. flag_review (propagate_row (match_results st) r)"
  from run_matching_inv [OF run] have inv: "results_inv (dwh_completed_of dwh_df) st" by simp
  then have "info_ok (dwh_completed_of dwh_df) (used_dwh_ids st) info"
    using info(1) unfolding results_inv_def by blast
  then obtain d where d: "dwh_data info = Some d"
    using info(2) unfolding info_ok_def by auto
  let ?p = "\<lparr> row = r,
                  out_net_sales_value = Some (mi_net_sales_value info),
                  out_gross_order_value = Some (mi_gross_order_value info),
                  out_unavailable_items_adjustment = Some (mi_unavailable_items_adjustment info),
                  out_dwh = Some d,
                  order_category = ''Linked to Order'',
                  match_status = ''LINKED'',
                  match_confidence = Some ''Inherited'' \<rparr>"
  have p: "propagate_row (match_results st) r = ?p"
    using propagate_linked [of "match_results st" r info] info no d by simp
  have "\<not> high_variance ?p" by (simp add: high_variance_def is_matched_category_def)
  then have q: "?q r = ?p" unfolding p by (simp add: flag_review_def)
  have "?q r \<in> set (map ?q dr_df)" using r by simp
  from columns_present [OF this]
  have cols: "(has_dwh_columns (map ?q dr_df) \<and> has_net_column (map ?q dr_df)) = True"
    unfolding q by simp
  have v: "variance_of ?p
           = round2 (round2 (mi_net_sales_value info) - round2 (dwh_post_promo_sales_inc_vat d))"
    by (simp add: variance_of_def fillna0_def dwh_val_of_def)
  have "calculate_variance_row
       (has_dwh_columns (map ?q dr_df) \<and> has_net_column (map ?q dr_df)) (?q r)
     = \<lparr> base = ?p,
         amount_variance =
           round2 (round2 (mi_net_sales_value info) - round2 (dwh_post_promo_sales_inc_vat d)),
         matched_amount = ''Linked'',
         variance_explanation = ''See Parent Order'' \<rparr>"
    unfolding cols q using calculate_variance_row_linked [of ?p] v by simp
  then show ?thesis using that [OF d] by simp
qed

text \<open>
  Claim C4, as amended. A row that is not an order row (a fee row, for one) and whose
  \<^verbatim>\<open>order_number\<close> has a matched result is annotated \<^verbatim>\<open>Linked to Order\<close>, with status
  \<^verbatim>\<open>LINKED\<close> and confidence \<^verbatim>\<open>Inherited\<close>. Its variance amount is the one of the parent
  order row, but its classification is not the parent's label: it is the fixed reference
  \<^verbatim>\<open>See Parent Order\<close> (with \<^verbatim>\<open>matched_amount\<close> \<^verbatim>\<open>Linked\<close>), while the parent order row
  carries the class computed from that amount.
\<close>

theorem linked_row_refers_to_parent:
  "\<exists>out. reconcile dr_df dwh_df = Inr out \<and> length out = length dr_df
     \<and> (\<forall>st info i.
           run_matching dr_df dwh_df = Inr st \<and> i < length dr_df \<and> \<not> is_order (dr_df ! i)
           \<and> match_results st (order_number (dr_df ! i)) = Some info \<and> matched info
           \<longrightarrow> order_category (base (out ! i)) = ''Linked to Order''
               \<and> match_status (base (out ! i)) = ''LINKED''
               \<and> match_confidence (base (out ! i)) = Some ''Inherited''
               \<and> matched_amount (out ! i) = ''Linked''
               \<and> variance_explanation (out ! i) = ''See Parent Order''
               \<and> (\<forall>j < length dr_df.
                     is_order (dr_df ! j) \<and> order_number (dr_df ! j) = order_number (dr_df ! i)
                     \<longrightarrow> amount_variance (out ! j) = amount_variance (out ! i)
                         \<and> variance_explanation (out ! j)
                             = snd (classify \<bar>amount_variance (out ! j)\<bar>)))"
proof (cases "filter is_order dr_df = []")
  case True
  let ?out = "map (\<lambda>r. \<lparr> base = no_orders_row r, amount_variance = 0,
                         matched_amount = ''No DWH Value'', variance_explanation = ''N/A'' \<rparr>) dr_df"
  have rec: "reconcile dr_df dwh_df = Inr ?out" by (rule reconcile_no_orders [OF True])
  have "match_results st k = None" if "run_matching dr_df dwh_df = Inr st" for st k
    using that run_matching_no_orders [OF True, of dwh_df] by (auto simp: initial_state_def)
  then have "\<not> (run_matching dr_df dwh_df = Inr st
                \<and> match_results st (order_number (dr_df ! i)) = Some info)" for st info i
    by auto
  then show ?thesis using rec by (intro exI [of _ ?out]) auto
next
  case False
  obtain st0 where run0: "run_matching dr_df dwh_df = Inr st0"
    using run_matching_succeeds by blast
  let ?q = "\<lambda>r. flag_review (propagate_row (match_results st0) r)"
  let ?cols = "has_dwh_columns (map ?q dr_df) \<and> has_net_column (map ?q dr_df)"
  let ?f = "\<lambda>r. calculate_variance_row ?cols (?q r)"
  let ?out = "map ?f dr_df"
  have rec: "reconcile dr_df dwh_df = Inr ?out" by (rule reconcile_rows [OF False run0])
  have main: "order_category (base (?out ! i)) = ''Linked to Order''
               \<and> match_status (base (?out ! i)) = ''LINKED''
               \<and> match_confidence (base (?out ! i)) = Some ''Inherited''
               \<and> matched_amount (?out ! i) = ''Linked''
               \<and> variance_explanation (?out ! i) = ''See Parent Order''
               \<and> (\<forall>j < length dr_df.
                     is_order (dr_df ! j) \<and> order_number (dr_df ! j) = order_number (dr_df ! i)
                     \<longrightarrow> amount_variance (?out ! j) = amount_variance (?out ! i)
                         \<and> variance_explanation (?out ! j)
                             = snd (classify \<bar>amount_variance (?out ! j)\<bar>))"
    if a: "run_matching dr_df dwh_df = Inr st \<and> i < length dr_df \<and> \<not> is_order (dr_df ! i)
           \<and> match_results st (order_number (dr_df ! i)) = Some info \<and> matched info"
    for st info i
  proof -
    from a run0 have st: "st = st0" by simp
    from a have i: "i < length dr_df" and no: "\<not> is_order (dr_df ! i)"
      and info: "match_results st0 (order_number (dr_df ! i)) = Some info" "matched info"
      unfolding st by auto
    have ri: "dr_df ! i \<in> set dr_df" using i by simp
    from False run0 ri no info obtain d where d: "dwh_data info = Some d"
      and rowi: "?f (dr_df ! i)
     = \<lparr> base = \<lparr> row = dr_df ! i,
                  out_net_sales_value = Some (mi_net_sales_value info),
                  out_gross_order_value = Some (mi_gross_order_value info),
                  out_unavailable_items_adjustment = Some (mi_unavailable_items_adjustment info),
                  out_dwh = Some d,
                  order_category = ''Linked to Order'',
                  match_status = ''LINKED'',
                  match_confidence = Some ''Inherited'' \<rparr>,
         amount_variance =
           round2 (round2 (mi_net_sales_value info) - round2 (dwh_post_promo_sales_inc_vat d)),
         matched_amount = ''Linked'',
         variance_explanation = ''See Parent Order'' \<rparr>"
      by (rule linked_var_row)
    have oi: "?out ! i = ?f (dr_df ! i)" using i by simp
    have parent: "amount_variance (?out ! j) = amount_variance (?out ! i)
                  \<and> variance_explanation (?out ! j) = snd (classify \<bar>amount_variance (?out ! j)\<bar>)"
      if j: "j < length dr_df"
        and pj: "is_order (dr_df ! j) \<and> order_number (dr_df ! j) = order_number (dr_df ! i)"
      for j
    proof -
      have rj: "dr_df ! j \<in> set dr_df" using j by simp
      have infoj: "match_results st0 (order_number (dr_df ! j)) = Some info" using pj info by simp
      have pcat: "is_matched_category (order_category (propagate_row (match_results st0) (dr_df ! j)))"
      proof -
        from run_matching_inv [OF run0]
        have "results_inv (dwh_completed_of dwh_df) st0" by simp
        then have "\<And>m. match_results st0 (order_number (dr_df ! j)) = Some m
                    \<Longrightarrow> info_ok (dwh_completed_of dwh_df) (used_dwh_ids st0) m"
          unfolding results_inv_def by blast
        from propagate_matched_category [of "match_results st0" "dr_df ! j", OF this]
        show ?thesis using pj infoj info(2) by simp
      qed
      from False run0 rj pcat obtain info' d' where
        "match_results st0 (order_number (dr_df ! j)) = Some info'" "matched info'"
        "is_order (dr_df ! j)" "dwh_data info' = Some d'"
        "out_net_sales_value (?q (dr_df ! j)) = Some (mi_net_sales_value info')"
        "out_dwh (?q (dr_df ! j)) = Some d'"
        and rowj: "?f (dr_df ! j)
           = \<lparr> base = ?q (dr_df ! j),
               amount_variance =
                 round2 (round2 (mi_net_sales_value info') - round2 (dwh_post_promo_sales_inc_vat d')),
               matched_amount =
                 fst (classify \<bar>round2 (round2 (mi_net_sales_value info')
                                    - round2 (dwh_post_promo_sales_inc_vat d'))\<bar>),
               variance_explanation =
                 snd (classify \<bar>round2 (round2 (mi_net_sales_value info')
                                    - round2 (dwh_post_promo_sales_inc_vat d'))\<bar>) \<rparr>"
        by (rule matched_var_row)
      then have same: "info' = info" "d' = d" using infoj d by simp_all
      have oj: "?out ! j = ?f (dr_df ! j)" using j by simp
      show ?thesis unfolding oi oj rowi rowj same by simp
    qed
    show ?thesis using parent unfolding oi rowi by simp
  qed
  have all: "\<forall>st info i.
           run_matching dr_df dwh_df = Inr st \<and> i < length dr_df \<and> \<not> is_order (dr_df ! i)
           \<and> match_results st (order_number (dr_df ! i)) = Some info \<and> matched info
           \<longrightarrow> order_category (base (?out ! i)) = ''Linked to Order''
               \<and> match_status (base (?out ! i)) = ''LINKED''
               \<and> match_confidence (base (?out ! i)) = Some ''Inherited''
               \<and> matched_amount (?out ! i) = ''Linked''
               \<and> variance_explanation (?out ! i) = ''See Parent Order''
               \<and> (\<forall>j < length dr_df.
                     is_order (dr_df ! j) \<and> order_number (dr_df ! j) = order_number (dr_df ! i)
                     \<longrightarrow> amount_variance (?out ! j) = amount_variance (?out ! i)
                         \<and> variance_explanation (?out ! j)
                             = snd (classify \<bar>amount_variance (?out ! j)\<bar>))"
    by (intro allI impI) (rule main)
  have len: "length ?out = length dr_df" by simp
  show ?thesis by (rule exI [of _ ?out]) (intro conjI rec len all)
qed

theorem linked_row_refers_to_parent_witness:
  "\<exists>out. reconcile linked_dr linked_dwh = Inr out
      \<and> order_category (base (out ! 1)) = ''Linked to Order''
      \<and> variance_explanation (out ! 1) = ''See Parent Order''
      \<and> amount_variance (out ! 0) = amount_variance (out ! 1)"
proof -
  from linked_row_refers_to_parent [of linked_dr linked_dwh]
  obtain out where rec: "reconcile linked_dr linked_dwh = Inr out"
    and rows: "\<And>st info i.
           run_matching linked_dr linked_dwh = Inr st \<and> i < length linked_dr
           \<and> \<not> is_order (linked_dr ! i)
           \<and> match_results st (order_number (linked_dr ! i)) = Some info \<and> matched info
           \<Longrightarrow> order_category (base (out ! i)) = ''Linked to Order''
               \<and> match_status (base (out ! i)) = ''LINKED''
               \<and> match_confidence (base (out ! i)) = Some ''Inherited''
               \<and> matched_amount (out ! i) = ''Linked''
               \<and> variance_explanation (out ! i) = ''See Parent Order''
               \<and> (\<forall>j < length linked_dr.
                     is_order (linked_dr ! j)
                     \<and> order_number (linked_dr ! j) = order_number (linked_dr ! i)
                     \<longrightarrow> amount_variance (out ! j) = amount_variance (out ! i)
                         \<and> variance_explanation (out ! j)
                             = snd (classify \<bar>amount_variance (out ! j)\<bar>))"
    by blast
  obtain st where run: "run_matching linked_dr linked_dwh = Inr st"
    using run_matching_succeeds by blast
  from run obtain info where info: "match_results st ''A'' = Some info" "matched info"
    by (auto simp add: linked_dr_def linked_dwh_def ex_defs run_defs)
  have r1: "\<not> is_order (linked_dr ! 1)" "order_number (linked_dr ! 1) = ''A''"
    "(1::nat) < length linked_dr"
    by (simp_all add: linked_dr_def mk_fee_def is_order_def)
  have r0: "is_order (linked_dr ! 0)" "order_number (linked_dr ! 0) = ''A''"
    "(0::nat) < length linked_dr"
    by (simp_all add: linked_dr_def mk_order_def is_order_def)
  from rows [of st 1 info] run info r1
  have a: "order_category (base (out ! 1)) = ''Linked to Order''"
    "variance_explanation (out ! 1) = ''See Parent Order''"
    and p: "\<forall>j < length linked_dr.
                     is_order (linked_dr ! j)
                     \<and> order_number (linked_dr ! j) = order_number (linked_dr ! 1)
                     \<longrightarrow> amount_variance (out ! j) = amount_variance (out ! 1)
                         \<and> variance_explanation (out ! j)
                             = snd (classify \<bar>amount_variance (out ! j)\<bar>)"
    by simp_all
  from p r0 r1 have b: "amount_variance (out ! 0) = amount_variance (out ! 1)" by simp
  show ?thesis by (rule exI [of _ out]) (intro conjI rec a b)
qed

text \<open>
  Claim C4 as stated fails: the parent order row is classified \<^verbatim>\<open>Exact Match\<close>, and the fee
  row linked to it carries \<^verbatim>\<open>See Parent Order\<close> (and \<^verbatim>\<open>Linked\<close>), not the parent's label.
\<close>

theorem linked_row_counterexample:
  "reconcile linked_dr linked_dwh =
     Inr [\<lparr> base = \<lparr> row = mk_order ''A'' ''1234'' ''StoreA'' 100 8640600 10,
                     out_net_sales_value = Some 8,
                     out_gross_order_value = Some 10,
                     out_unavailable_items_adjustment = Some (- 2),
                     out_dwh = Some (mk_dwh ''G1'' ''1234'' ''StoreA'' 100 8 8640000 8640900),
                     order_category = ''Matched (Grouped)'',
                     match_status = ''MATCHED'',
                     match_confidence = Some ''High'' \<rparr>,
            amount_variance = 0,
            matched_amount = ''Exact Match'',
            variance_explanation = ''Exact Match'' \<rparr>,
          \<lparr> base = \<lparr> row = mk_fee ''A'' ''1234'' ''StoreA'' 100 8640600 (- 2),
                     out_net_sales_value = Some 8,
                     out_gross_order_value = Some 10,
                     out_unavailable_items_adjustment = Some (- 2),
                     out_dwh = Some (mk_dwh ''G1'' ''1234'' ''StoreA'' 100 8 8640000 8640900),
                     order_category = ''Linked to Order'',
                     match_status = ''LINKED'',
                     match_confidence = Some ''Inherited'' \<rparr>,
            amount_variance = 0,
            matched_amount = ''Linked'',
            variance_explanation = ''See Parent Order'' \<rparr>]"
  by (simp add: linked_dr_def linked_dwh_def ex_defs run_defs out_defs var_defs
      del: not_None_eq)

section \<open>Conservation of the net value\<close>

lemmas total_defs = all_rows_net_total_def order_rows_net_total_def raw_gross_total_def
  raw_net_total_def raw_parented_net_total_def

text \<open>
  Claim C8 as stated fails. The net value 8 of the order is repeated on its linked fee row,
  and the fee row without an order row is annotated with the net value 0: the output rows
  sum to 16 (the order rows alone to 8), the raw rows to 10 - 2 - 3 = 5.
\<close>

theorem conservation_counterexample:
  "match_deliveroo_orders conservation_dr linked_dwh = Inr conservation_out
   \<and> all_rows_net_total conservation_out = 16
   \<and> order_rows_net_total conservation_out = 8
   \<and> raw_net_total conservation_dr = 5"
  by (simp add: conservation_dr_def conservation_out_def linked_dwh_def ex_defs run_defs out_defs
      total_defs del: not_None_eq)

lemma set_insort_date: "set (insort_date a xs) = insert a (set xs)"
  by (induction xs) auto

lemma set_sort_values: "set (sort_values_delivery_date xs) = set xs"
  unfolding sort_values_delivery_date_def by (induction xs) (simp_all add: set_insort_date)

lemma match_step_results:
  assumes "lookup_sound D L" and "match_step L D T agg st = Inr st'"
  shows "\<exists>info. match_results st' = (match_results st)(a_order_number agg \<mapsto> info)
           \<and> mi_net_sales_value info = net_sales_value agg"
  using assms(1)
proof (cases rule: match_step_cases [where st = st and T = T and agg = agg])
  case (hit c s cross r)
  show ?thesis using assms(2) unfolding match_step_matched [OF hit(1,2)] by auto
next
  case (miss s cross)
  show ?thesis using assms(2) unfolding match_step_unmatched [OF miss] by auto
qed

lemma match_loop_results:
  assumes "lookup_sound D L" and "match_loop L D T aggs st = Inr st'"
  shows "(\<forall>k. k \<notin> a_order_number ` set aggs \<longrightarrow> match_results st' k = match_results st k)
       \<and> (\<forall>k \<in> a_order_number ` set aggs.
            \<exists>info agg. match_results st' k = Some info \<and> agg \<in> set aggs
               \<and> a_order_number agg = k \<and> mi_net_sales_value info = net_sales_value agg)"
  using assms(2)
proof (induction aggs arbitrary: st)
  case Nil
  then show ?case by simp
next
  case (Cons agg aggs)
  from match_step_succeeds [OF assms(1), of T agg st]
  obtain st1 where s1: "match_step L D T agg st = Inr st1" by blast
  then have rest: "match_loop L D T aggs st1 = Inr st'" using Cons.prems by simp
  from match_step_results [OF assms(1) s1] obtain info where
    upd: "match_results st1 = (match_results st)(a_order_number agg \<mapsto> info)"
    and net: "mi_net_sales_value info = net_sales_value agg" by blast
  from Cons.IH [OF rest]
  have keep: "\<And>k. k \<notin> a_order_number ` set aggs \<Longrightarrow> match_results st' k = match_results st1 k"
    and new: "\<And>k. k \<in> a_order_number ` set aggs \<Longrightarrow>
            \<exists>info agg. match_results st' k = Some info \<and> agg \<in> set aggs
               \<and> a_order_number agg = k \<and> mi_net_sales_value info = net_sales_value agg"
    by blast+
  have a: "match_results st' k = match_results st k"
    if "k \<notin> a_order_number ` set (agg # aggs)" for k
    using that keep [of k] upd by simp
  have b: "\<exists>info a. match_results st' k = Some info \<and> a \<in> set (agg # aggs)
               \<and> a_order_number a = k \<and> mi_net_sales_value info = net_sales_value a"
    if k: "k \<in> a_order_number ` set (agg # aggs)" for k
  proof (cases "k \<in> a_order_number ` set aggs")
    case True
    from new [OF True] show ?thesis by auto
  next
    case False
    then have "k = a_order_number agg" using k by simp
    moreover have "match_results st' k = match_results st1 k" using keep [OF False] .
    ultimately have "match_results st' k = Some info" using upd by simp
    then show ?thesis using net \<open>k = a_order_number agg\<close> by auto
  qed
  show ?case using a b by blast
qed

text \<open>The sum of the fee adjustments that aggregation adds to an order number.\<close>

lemma aggregate_row:
  assumes "agg \<in> set (aggregate_order_values dr_df)"
  shows "\<exists>r \<in> set (filter is_order dr_df). a_order_number agg = order_number r
           \<and> net_sales_value agg =
               (fillna0 (order_value_gross r) + fillna0 (marketing_offer_discount r))
               + sum_list (map (\<lambda>f. fillna0 (adjustment_gross f))
                   (filter (\<lambda>f. order_number f = order_number r) (filter is_fee dr_df)))"
  using assms
  by (auto simp: aggregate_order_values_def Let_def split: if_splits)

lemma aggregate_numbers:
  "a_order_number ` set (aggregate_order_values dr_df) = order_number ` set (filter is_order dr_df)"
  by (auto simp: aggregate_order_values_def Let_def image_iff split: if_splits)
     (metis (mono_tags, lifting) agg_row.select_convs(1) empty_iff filter_empty_conv list.set(1)
        mem_Collect_eq set_filter)

lemma order_row_net:
  assumes dist: "distinct (map order_number (filter is_order dr_df))"
    and run: "run_matching dr_df dwh_df = Inr st"
    and r: "r \<in> set dr_df" "is_order r"
  shows "\<exists>info. match_results st (order_number r) = Some info
           \<and> mi_net_sales_value info =
               (fillna0 (order_value_gross r) + fillna0 (marketing_offer_discount r))
               + sum_list (map (\<lambda>f. fillna0 (adjustment_gross f))
                   (filter (\<lambda>f. order_number f = order_number r) (filter is_fee dr_df)))"
proof -
  let ?D = "dwh_completed_of dwh_df"
  let ?L = "build_lookup ?D Map.empty"
  let ?aggs = "sort_values_delivery_date (aggregate_order_values dr_df)"
  have ls: "lookup_sound ?D ?L" by (rule lookup_sound_build [OF distinct_dwh_completed])
  have loop: "match_loop ?L ?D (order_timestamps_of (filter is_order dr_df) Map.empty) ?aggs
                initial_state = Inr st"
    using run by (simp add: run_matching_def Let_def)
  have rin: "r \<in> set (filter is_order dr_df)" using r by simp
  then have "order_number r \<in> a_order_number ` set ?aggs"
    unfolding set_sort_values aggregate_numbers by simp
  with match_loop_results [OF ls loop]
  obtain info agg where info: "match_results st (order_number r) = Some info"
    and agg: "agg \<in> set (aggregate_order_values dr_df)" "a_order_number agg = order_number r"
    and net: "mi_net_sales_value info = net_sales_value agg"
    unfolding set_sort_values by blast
  from aggregate_row [OF agg(1)] obtain r' where
    r': "r' \<in> set (filter is_order dr_df)" "a_order_number agg = order_number r'"
    and v: "net_sales_value agg =
               (fillna0 (order_value_gross r') + fillna0 (marketing_offer_discount r'))
               + sum_list (map (\<lambda>f. fillna0 (adjustment_gross f))
                   (filter (\<lambda>f. order_number f = order_number r') (filter is_fee dr_df)))"
    by blast
  have "inj_on order_number (set (filter is_order dr_df))"
    using dist by (simp add: distinct_map)
  then have "r' = r" using r' rin agg(2) by (auto dest: inj_onD)
  then show ?thesis using info net v by simp
qed

lemma propagate_net:
  "results (order_number r) = Some info
   \<Longrightarrow> out_net_sales_value (propagate_row results r) = Some (mi_net_sales_value info)"
  by (simp add: propagate_row_def)

lemma sum_filter_disj:
  assumes "\<And>x. x \<in> set xs \<Longrightarrow> \<not> (P x \<and> Q x)"
  shows "sum_list (map g (filter (\<lambda>x. P x \<or> Q x) xs))
         = (sum_list (map g (filter P xs)) + sum_list (map g (filter Q xs)) :: real)"
  using assms by (induction xs) auto

lemma sum_per_order:
  assumes "distinct (map order_number orders)"
  shows "sum_list (map (\<lambda>r. sum_list (map g (filter (\<lambda>f. order_number f = order_number r) fees)))
                       orders)
         = (sum_list (map g (filter (\<lambda>f. order_number f \<in> order_number ` set orders) fees)) :: real)"
  using assms
proof (induction orders)
  case Nil
  then show ?case by simp
next
  case (Cons r rs)
  have disj: "\<not> (order_number f = order_number r \<and> order_number f \<in> order_number ` set rs)" for f
    using Cons.prems by auto
  have "sum_list (map g (filter (\<lambda>f. order_number f \<in> order_number ` set (r # rs)) fees))
        = sum_list (map g (filter (\<lambda>f. order_number f = order_number r
                                         \<or> order_number f \<in> order_number ` set rs) fees))"
    by simp
  also have "\<dots> = sum_list (map g (filter (\<lambda>f. order_number f = order_number r) fees))
                  + sum_list (map g (filter (\<lambda>f. order_number f \<in> order_number ` set rs) fees))"
    by (rule sum_filter_disj) (rule disj)
  finally show ?case using Cons by simp
qed

lemma no_orders_net_total:
  "order_rows_net_total (map no_orders_row dr_df) = 0"
  by (induction dr_df) (simp_all add: order_rows_net_total_def no_orders_row_def fillna0_def)

text \<open>
  Claim C8, as amended. When the order rows have pairwise different order numbers, the sum
  of \<^verbatim>\<open>net_sales_value\<close> over the order rows of the output equals the sum computed from the
  raw rows: the gross order value of the order rows plus the adjustments of the fee rows
  that belong to an order row. Every output row stands for the input row at its position;
  a row of any category with the number of an order row repeats that row's net value, and
  a standalone adjustment carries the net value 0, so these rows add nothing of their own.
\<close>

theorem net_value_conserved_on_order_rows:
  assumes "distinct (map order_number (filter is_order dr_df))"
  shows "\<exists>out. match_deliveroo_orders dr_df dwh_df = Inr out
      \<and> map row out = dr_df
      \<and> order_rows_net_total out = raw_parented_net_total dr_df
      \<and> (\<forall>q \<in> set out. \<forall>p \<in> set out.
            is_order (row p) \<and> order_number (row q) = order_number (row p)
            \<longrightarrow> out_net_sales_value q = out_net_sales_value p)
      \<and> (\<forall>q \<in> set out. order_category q = ''Standalone Adjustment''
            \<longrightarrow> out_net_sales_value q = Some 0)"
proof (cases "filter is_order dr_df = []")
  case True
  let ?out = "map no_orders_row dr_df"
  have m: "match_deliveroo_orders dr_df dwh_df = Inr ?out"
    using True by (simp add: match_deliveroo_orders_def)
  have rows: "map row ?out = dr_df" by (simp add: no_orders_row_def comp_def)
  have noord: "\<not> is_order (row p)" if "p \<in> set ?out" for p
  proof -
    from that obtain r where "r \<in> set dr_df" "p = no_orders_row r" by auto
    moreover have "\<not> is_order r" if "r \<in> set dr_df" for r
      using True that by (simp add: filter_empty_conv)
    ultimately show ?thesis by (simp add: no_orders_row_def)
  qed
  have raw: "raw_parented_net_total dr_df = 0"
    using True by (simp add: raw_parented_net_total_def raw_gross_total_def)
  have cat: "order_category q \<noteq> ''Standalone Adjustment''" if "q \<in> set ?out" for q
    using that by (auto simp: no_orders_row_def)
  show ?thesis
    using m rows noord raw cat no_orders_net_total [of dr_df]
    by (intro exI [of _ ?out]) auto
next
  case False
  obtain st where run: "run_matching dr_df dwh_df = Inr st"
    using run_matching_succeeds by blast
  let ?g = "\<lambda>r. flag_review (propagate_row (match_results st) r)"
  let ?out = "map ?g dr_df"
  let ?net = "\<lambda>r. (fillna0 (order_value_gross r) + fillna0 (marketing_offer_discount r))
               + sum_list (map (\<lambda>f. fillna0 (adjustment_gross f))
                   (filter (\<lambda>f. order_number f = order_number r) (filter is_fee dr_df)))"
  have m: "match_deliveroo_orders dr_df dwh_df = Inr ?out"
    by (rule match_deliveroo_orders_rows [OF False run])
  have rows: "map row ?out = dr_df" by (simp add: comp_def)
  have onet: "out_net_sales_value (?g r) = Some (?net r)" if "r \<in> set dr_df" "is_order r" for r
  proof -
    from order_row_net [OF assms run that] obtain info where
      "match_results st (order_number r) = Some info" "mi_net_sales_value info = ?net r"
      by blast
    then show ?thesis by (simp add: propagate_net)
  qed
  have filt: "filter (\<lambda>q. is_order (row q)) ?out = map ?g (filter is_order dr_df)"
    by (simp add: filter_map comp_def)
  have "order_rows_net_total ?out
        = sum_list (map (\<lambda>r. fillna0 (out_net_sales_value (?g r))) (filter is_order dr_df))"
    unfolding order_rows_net_total_def filt by (simp add: comp_def)
  also have "\<dots> = sum_list (map ?net (filter is_order dr_df))"
  proof -
    have "fillna0 (out_net_sales_value (?g r)) = ?net r" if "r \<in> set (filter is_order dr_df)" for r
    proof -
      from that have "r \<in> set dr_df" "is_order r" by simp_all
      from onet [OF this] show ?thesis by (simp only: fillna0_def option.case)
    qed
    then have "map (\<lambda>r. fillna0 (out_net_sales_value (?g r))) (filter is_order dr_df)
               = map ?net (filter is_order dr_df)"
      by (intro map_cong refl)
    then show ?thesis by (simp only:)
  qed
  also have "\<dots> = raw_gross_total dr_df
                  + sum_list (map (\<lambda>r. sum_list (map (\<lambda>f. fillna0 (adjustment_gross f))
                       (filter (\<lambda>f. order_number f = order_number r) (filter is_fee dr_df))))
                     (filter is_order dr_df))"
    by (simp add: raw_gross_total_def sum_list_addf)
  also have "\<dots> = raw_parented_net_total dr_df"
    unfolding raw_parented_net_total_def sum_per_order [OF assms] ..
  finally have total: "order_rows_net_total ?out = raw_parented_net_total dr_df" .
  have same: "out_net_sales_value q = out_net_sales_value p"
    if q: "q \<in> set ?out" and p: "p \<in> set ?out"
      and c: "is_order (row p) \<and> order_number (row q) = order_number (row p)" for q p
  proof -
    from q p obtain rq rp where rq: "rq \<in> set dr_df" "q = ?g rq"
      and rp: "rp \<in> set dr_df" "p = ?g rp" by auto
    from c rq rp have ord: "is_order rp" and eq: "order_number rq = order_number rp" by simp_all
    from order_row_net [OF assms run rp(1) ord] obtain info where
      info: "match_results st (order_number rp) = Some info" by blast
    then have "out_net_sales_value (?g rp) = Some (mi_net_sales_value info)"
      by (simp add: propagate_net)
    moreover have "out_net_sales_value (?g rq) = Some (mi_net_sales_value info)"
      using info eq by (simp add: propagate_net)
    ultimately show ?thesis using rq rp by simp
  qed
  have alone: "out_net_sales_value q = Some 0"
    if q: "q \<in> set ?out" and c: "order_category q = ''Standalone Adjustment''" for q
  proof -
    from q obtain r where r: "r \<in> set dr_df" "q = ?g r" by auto
    from run_matching_inv [OF run]
    have inv: "results_inv (dwh_completed_of dwh_df) st" by simp
    have pc: "order_category (propagate_row (match_results st) r) = ''Standalone Adjustment''"
      using c r by simp
    show ?thesis
    proof (cases "match_results st (order_number r)")
      case None
      then show ?thesis using r by (simp add: propagate_row_def)
    next
      case (Some info)
      then have ok: "info_ok (dwh_completed_of dwh_df) (used_dwh_ids st) info"
        using inv unfolding results_inv_def by blast
      have "order_category (propagate_row (match_results st) r) \<noteq> ''Standalone Adjustment''"
      proof (cases "matched info")
        case True
        then have "is_matched_category (mi_order_category info)"
          using ok by (auto simp: info_ok_def)
        then show ?thesis using Some True
          by (auto simp: propagate_row_def is_matched_category_def)
      next
        case False
        then show ?thesis using Some by (simp add: propagate_row_def)
      qed
      then show ?thesis using pc by simp
    qed
  qed
  have c1: "\<forall>q \<in> set ?out. \<forall>p \<in> set ?out.
            is_order (row p) \<and> order_number (row q) = order_number (row p)
            \<longrightarrow> out_net_sales_value q = out_net_sales_value p"
    using same by blast
  have c2: "\<forall>q \<in> set ?out. order_category q = ''Standalone Adjustment''
            \<longrightarrow> out_net_sales_value q = Some 0"
    using alone by blast
  show ?thesis by (rule exI [of _ ?out]) (intro conjI m rows total c1 c2)
qed

theorem net_value_conserved_on_order_rows_witness:
  "distinct (map order_number (filter is_order conservation_dr))
   \<and> (\<exists>out. match_deliveroo_orders conservation_dr linked_dwh = Inr out
          \<and> order_rows_net_total out = 8)"
proof -
  have h: "distinct (map order_number (filter is_order conservation_dr))"
    by (simp add: conservation_dr_def mk_order_def mk_fee_def is_order_def)
  from net_value_conserved_on_order_rows [OF h, of linked_dwh]
  obtain out where m: "match_deliveroo_orders conservation_dr linked_dwh = Inr out"
    and t: "order_rows_net_total out = raw_parented_net_total conservation_dr"
    by blast
  have "raw_parented_net_total conservation_dr = 8"
    by (simp add: raw_parented_net_total_def raw_gross_total_def conservation_dr_def
        mk_order_def mk_fee_def is_order_def is_fee_def fillna0_def)
  with t have t8: "order_rows_net_total out = 8" by simp
  show ?thesis
  proof (intro conjI exI)
    show "distinct (map order_number (filter is_order conservation_dr))" by (rule h)
    show "match_deliveroo_orders conservation_dr linked_dwh = Inr out" by (rule m)
    show "order_rows_net_total out = 8" by (rule t8)
  qed
qed

section \<open>Processing order\<close>

lemma date_le_total: "date_le a b \<or> date_le b a"
  by (auto simp: date_le_def split: option.splits)

lemma date_le_trans: "date_le a b \<Longrightarrow> date_le b c \<Longrightarrow> date_le a c"
  by (auto simp: date_le_def split: option.splits)

lemma sorted_insort_date:
  assumes "sorted_wrt (\<lambda>a b. date_le (a_delivery_date a) (a_delivery_date b)) xs"
  shows "sorted_wrt (\<lambda>a b. date_le (a_delivery_date a) (a_delivery_date b)) (insort_date x xs)"
  using assms
proof (induction xs)
  case Nil
  then show ?case by simp
next
  case (Cons y ys)
  show ?case
  proof (cases "date_le (a_delivery_date x) (a_delivery_date y)")
    case True
    then have "\<forall>z \<in> set ys. date_le (a_delivery_date x) (a_delivery_date z)"
      using Cons.prems date_le_trans by auto
    then show ?thesis using True Cons.prems by simp
  next
    case False
    then have "date_le (a_delivery_date y) (a_delivery_date x)" using date_le_total by blast
    then show ?thesis using False Cons by (auto simp: set_insort_date)
  qed
qed

text \<open>What the sort does give: the orders are processed in ascending order of their
  delivery date, the ones without a date last.\<close>

lemma sort_values_sorted:
  "sorted_wrt (\<lambda>a b. date_le (a_delivery_date a) (a_delivery_date b))
     (sort_values_delivery_date xs)"
  unfolding sort_values_delivery_date_def
  by (induction xs) (simp_all add: sorted_insort_date)

text \<open>
  Claim C2. The claim asks that an order with a strictly earlier originating timestamp is
  resolved first. The code sorts on the \<^verbatim>\<open>delivery_date\<close> column, the date without the time
  of day, so two orders of one date are resolved in table order: here order A (10:00) is
  resolved before order B (09:00) and claims the only warehouse record, and B is left with
  \<^verbatim>\<open>NO_DWH_RECORD\<close>.
\<close>

theorem processing_order_ignores_time_of_day:
  "map dr_delivery_ts same_day_dr = [Some 8676000, Some 8672400]
   \<and> map a_order_number (sort_values_delivery_date (aggregate_order_values same_day_dr))
       = [''A'', ''B'']
   \<and> match_deliveroo_orders same_day_dr same_day_dwh =
       Inr [\<lparr> row = mk_order ''A'' ''1234'' ''StoreA'' 100 8676000 20,
              out_net_sales_value = Some 20,
              out_gross_order_value = Some 20,
              out_unavailable_items_adjustment = Some 0,
              out_dwh = Some (mk_dwh ''G1'' ''1234'' ''StoreA'' 100 20 8671000 8673000),
              order_category = ''Matched'',
              match_status = ''MATCHED'',
              match_confidence = Some ''High'' \<rparr>,
            \<lparr> row = mk_order ''B'' ''1234'' ''StoreA'' 100 8672400 20,
              out_net_sales_value = Some 20,
              out_gross_order_value = Some 20,
              out_unavailable_items_adjustment = Some 0,
              out_dwh = None,
              order_category = ''Not Matched'',
              match_status = ''NO_DWH_RECORD'',
              match_confidence = Some ''N/A'' \<rparr>]"
  by (simp add: same_day_dr_def same_day_dwh_def ex_defs run_defs out_defs del: not_None_eq)

section \<open>Timestamp resolution in the run\<close>











end
